theory Spec2Isabelle
  imports Main
begin

section \<open>Python text\<close>

text \<open>
  A message is a Python \<open>str\<close>. It is modelled as a \<open>string\<close> whose characters are the
  code points 0 to 255; on that range \<open>str.strip()\<close> removes the characters for which
  \<open>str.isspace\<close> holds and \<open>str.lower()\<close> maps A-Z and the upper-case letters of
  Latin-1 to their lower-case forms, one character to one character.
\<close>

definition isspace :: "char \<Rightarrow> bool" where
  "isspace c =
     (let n = of_char c :: nat
      in (9 \<le> n \<and> n \<le> 13) \<or> (28 \<le> n \<and> n \<le> 32) \<or> n = 133 \<or> n = 160)"

definition lower_char :: "char \<Rightarrow> char" where
  "lower_char c =
     (let n = of_char c :: nat
      in if (65 \<le> n \<and> n \<le> 90) \<or> (192 \<le> n \<and> n \<le> 222 \<and> n \<noteq> 215)
         then char_of (n + 32) else c)"

definition strip :: "string \<Rightarrow> string" where
  "strip s = rev (dropWhile isspace (rev (dropWhile isspace s)))"

definition lower :: "string \<Rightarrow> string" where
  "lower s = map lower_char s"

section \<open>Constants of the two servers\<close>

definition VALID_COMMANDS :: "string set" where
  "VALID_COMMANDS = {''init'', ''forward'', ''backward'', ''left'', ''right''}"

definition WEBSOCKET_PORT :: int where
  "WEBSOCKET_PORT = 8080"

definition MDNS_HOSTNAME :: string where
  "MDNS_HOSTNAME = ''robot-spider.local''"

definition MDNS_SERVICE_TYPE :: string where
  "MDNS_SERVICE_TYPE = ''_http._tcp.local.''"

definition SERVER_NAME :: string where
  "SERVER_NAME = ''robot-spider''"

definition SERVICE_UUID :: string where
  "SERVICE_UUID = ''00001101-0000-1000-8000-00805F9B34FB''"

section \<open>Exceptions and effects\<close>

text \<open>
  The exception classes the two files name or can meet. An \<open>error\<close> is a subclass of
  \<open>Exception\<close>, the ones \<open>except Exception\<close> catches; an \<open>interrupt\<close> derives from
  \<open>BaseException\<close> only. The calls made once at startup and at shutdown (the address
  probe, the discovery library, bind, advertise) fail with an \<open>error\<close>. The points where
  a server waits (accept, recv, send, the awaited future) can also be left by an
  interrupt: \<open>signal_handler\<close> of the Bluetooth file runs \<open>sys.exit(0)\<close> on Ctrl+C, which
  raises \<open>SystemExit\<close> there, and asyncio cancels a waiting task with \<open>CancelledError\<close>.
\<close>

datatype error =
    ConnectionClosed
  | BluetoothError
  | TimeoutError
  | UnicodeDecodeError
  | OtherError

datatype interrupt =
    KeyboardInterrupt
  | SystemExit int
  | CancelledError

datatype exn = Error error | Interrupt interrupt

text \<open>How a call ends: it returns, it raises, or it waits for input that never comes.\<close>

datatype completion = Returns | Raises exn | Blocks

text \<open>
  What the code does to the outside world, in order. Log lines keep their text without
  the timestamp and the colour codes; a value formatted into a line is an argument of
  the constructor.
\<close>

datatype effect =
    Print string
  | LogInfo string
  | LogAcks bool
  | LogListening nat
  | LogClients nat
  | LogSummary int
  | LogCommand string string
  | LogWarning string
  | LogInvalid string string
  | LogError string
  | LogErrorExn string exn
  | LogWarningExn string exn
  | PrintAck string
  | Send string "exn option"
  | CloseClient
  | StopAdvertising
  | CloseServer
  | Alarm nat
  | SetAlarmHandler
  | RestoreAlarmHandler
  | UnregisterService "error option"
  | CloseZeroconf "error option"

section \<open>Server state\<close>

text \<open>
  Both classes hold \<open>send_acks\<close> and \<open>command_count\<close>; each adds its own attributes.
  A websocket and a socket are named by a number.
\<close>

record robot_server =
  send_acks :: bool
  command_count :: int

record service_info =
  svc_type :: string
  svc_name :: string
  svc_address :: string
  svc_port :: int
  svc_server :: string

record MockRobotServer = robot_server +
  connected_clients :: "nat set"
  zeroconf :: "unit option"
  service_info :: "service_info option"

record MockBluetoothRobotServer = robot_server +
  server_sock :: "nat option"
  client_sock :: "nat option"
  running :: bool

section \<open>The body of the receive loop\<close>

text \<open>
  Lines 111 to 127 of \<open>mock_robot_server.py\<close> and lines 174 to 190 of
  \<open>mock_bluetooth_server.py\<close> are the same statements; they differ in the call that
  writes to the client. \<open>snd_result\<close> is what that call does if it is reached:
  \<open>None\<close> when it returns, \<open>Some e\<close> when it raises \<open>e\<close>.
\<close>

definition quoted :: "string \<Rightarrow> string" where
  "quoted s = [CHR 0x27] @ s @ [CHR 0x27]"

definition handle_message ::
  "'a robot_server_scheme \<Rightarrow> string \<Rightarrow> string \<Rightarrow> exn option
     \<Rightarrow> 'a robot_server_scheme \<times> effect list \<times> completion" where
  "handle_message st client_addr message snd_result =
     (let command = lower (strip message)
      in if command \<in> VALID_COMMANDS
         then
           (let st1 = st\<lparr>command_count := command_count st + 1\<rparr>;
                tr = [LogCommand command client_addr]
            in if send_acks st
               then
                 (let ack_message = ''OK:'' @ command
                  in case snd_result of
                       None \<Rightarrow> (st1, tr @ [Send ack_message None, PrintAck ack_message], Returns)
                     | Some e \<Rightarrow> (st1, tr @ [Send ack_message (Some e)], Raises e))
               else (st1, tr, Returns))
         else
           (let tr = [LogInvalid command client_addr]
            in if send_acks st
               then
                 (let reply = ''ERROR:Unknown command '' @ quoted command
                  in case snd_result of
                       None \<Rightarrow> (st, tr @ [Send reply None], Returns)
                     | Some e \<Rightarrow> (st, tr @ [Send reply (Some e)], Raises e))
               else (st, tr, Returns)))"

section \<open>The WebSocket server: session handler\<close>

text \<open>
  What \<open>async for message in websocket\<close> yields next: a text message (with the result
  of a write attempted while it is handled), the end of the iteration when the peer
  closed the connection normally, or an exception.
\<close>

datatype ws_event =
    WsMessage string "exn option"
  | WsClosedOK
  | WsRaises exn

text \<open>
  The \<open>try\<close> block of \<open>MockRobotServer.handle_client\<close>: the loop over the incoming
  messages. An event list that ends before the connection does leaves the handler
  waiting.
\<close>

fun ws_receive_loop ::
  "MockRobotServer \<Rightarrow> string \<Rightarrow> ws_event list \<Rightarrow> MockRobotServer \<times> effect list \<times> completion" where
  "ws_receive_loop st client_addr [] = (st, [], Blocks)"
| "ws_receive_loop st client_addr (WsClosedOK # evs) = (st, [], Returns)"
| "ws_receive_loop st client_addr (WsRaises e # evs) = (st, [], Raises e)"
| "ws_receive_loop st client_addr (WsMessage message snd_result # evs) =
     (case handle_message st client_addr message snd_result of
        (st1, tr, Returns) \<Rightarrow>
          (case ws_receive_loop st1 client_addr evs of
             (st2, tr2, c) \<Rightarrow> (st2, tr @ tr2, c))
      | (st1, tr, c) \<Rightarrow> (st1, tr, c))"

text \<open>
  The \<open>except\<close> clauses and the \<open>finally\<close> clause of the handler, entered with the
  way the \<open>try\<close> block ended.
\<close>

definition ws_finish ::
  "MockRobotServer \<Rightarrow> nat \<Rightarrow> string \<Rightarrow> completion
     \<Rightarrow> MockRobotServer \<times> effect list \<times> completion" where
  "ws_finish st websocket client_addr c =
     (let (tr, c1) =
            (case c of
               Raises (Error ConnectionClosed) \<Rightarrow>
                 ([LogInfo (''Client disconnected: '' @ client_addr)], Returns)
             | Raises (Error e) \<Rightarrow>
                 ([LogErrorExn (''Error handling client '' @ client_addr @ '': '') (Error e)],
                  Returns)
             | _ \<Rightarrow> ([], c));
          st1 = st\<lparr>connected_clients := connected_clients st - {websocket}\<rparr>
      in (st1, tr @ [LogClients (card (connected_clients st1))], c1))"

text \<open>
  The statements of the handler before the \<open>try\<close> block: the session joins the shared
  set. \<open>client_addr\<close> is the text formatted from \<open>websocket.remote_address\<close>.
\<close>

definition ws_connect ::
  "MockRobotServer \<Rightarrow> nat \<Rightarrow> string \<Rightarrow> MockRobotServer \<times> effect list" where
  "ws_connect st websocket client_addr =
     (let st0 = st\<lparr>connected_clients := insert websocket (connected_clients st)\<rparr>
      in (st0, [LogInfo (''Client connected: '' @ client_addr),
                LogClients (card (connected_clients st0))]))"

text \<open>
  \<open>MockRobotServer.handle_client\<close>. A handler that is still waiting for a message has
  not reached its \<open>except\<close> and \<open>finally\<close> clauses.
\<close>

definition ws_handle_client ::
  "MockRobotServer \<Rightarrow> nat \<Rightarrow> string \<Rightarrow> ws_event list
     \<Rightarrow> MockRobotServer \<times> effect list \<times> completion" where
  "ws_handle_client st websocket client_addr evs =
     (case ws_connect st websocket client_addr of
        (st0, tr0) \<Rightarrow>
          (case ws_receive_loop st0 client_addr evs of
             (st1, tr1, Blocks) \<Rightarrow> (st1, tr0 @ tr1, Blocks)
           | (st1, tr1, c) \<Rightarrow>
               (case ws_finish st1 websocket client_addr c of
                  (st2, tr2, c2) \<Rightarrow> (st2, tr0 @ tr1 @ tr2, c2))))"

text \<open>
  Many handlers run on one event loop. A handler runs without interruption from the
  moment a message reaches it to its next wait, so the sessions interleave message by
  message: a schedule says which connection opens or which waiting handler receives its
  next event. \<open>live\<close> holds the handlers that are waiting, with their peer address.
\<close>

datatype sched = Connect nat string | Deliver nat ws_event

fun ws_serve ::
  "MockRobotServer \<Rightarrow> (nat \<rightharpoonup> string) \<Rightarrow> sched list \<Rightarrow> MockRobotServer \<times> effect list" where
  "ws_serve st live [] = (st, [])"
| "ws_serve st live (Connect websocket client_addr # sch) =
     (if websocket \<in> dom live then ws_serve st live sch
      else
        (case ws_connect st websocket client_addr of
           (st0, tr0) \<Rightarrow>
             (case ws_serve st0 (live(websocket \<mapsto> client_addr)) sch of
                (st1, tr1) \<Rightarrow> (st1, tr0 @ tr1))))"
| "ws_serve st live (Deliver websocket ev # sch) =
     (case live websocket of
        None \<Rightarrow> ws_serve st live sch
      | Some client_addr \<Rightarrow>
          (case ws_receive_loop st client_addr [ev] of
             (st1, tr1, Blocks) \<Rightarrow>
               (case ws_serve st1 live sch of (st2, tr2) \<Rightarrow> (st2, tr1 @ tr2))
           | (st1, tr1, c) \<Rightarrow>
               (case ws_finish st1 websocket client_addr c of
                  (st2, tr2, c2) \<Rightarrow>
                    (case ws_serve st2 (live(websocket := None)) sch of
                       (st3, tr3) \<Rightarrow> (st3, tr1 @ tr2 @ tr3)))))"

section \<open>The Bluetooth server\<close>

text \<open>
  What \<open>client_sock.recv(1024)\<close> gives next: data that decodes as UTF-8 to a text (with
  the result of a write attempted while it is handled), data that does not decode, the
  empty read of a closed connection, or an exception.
\<close>

datatype bt_event =
    BtData string "exn option"
  | BtUndecodable
  | BtEmpty
  | BtRaises exn

text \<open>The \<open>try\<close> block of \<open>MockBluetoothRobotServer.handle_client\<close>.\<close>

fun bt_receive_loop ::
  "MockBluetoothRobotServer \<Rightarrow> string \<Rightarrow> bt_event list
     \<Rightarrow> MockBluetoothRobotServer \<times> effect list \<times> completion" where
  "bt_receive_loop st client_addr [] =
     (if \<not> running st then (st, [], Returns) else (st, [], Blocks))"
| "bt_receive_loop st client_addr (BtRaises e # evs) =
     (if \<not> running st then (st, [], Returns) else (st, [], Raises e))"
| "bt_receive_loop st client_addr (BtEmpty # evs) =
     (if \<not> running st then (st, [], Returns) else (st, [], Returns))"
| "bt_receive_loop st client_addr (BtUndecodable # evs) =
     (if \<not> running st then (st, [], Returns)
      else (st, [], Raises (Error UnicodeDecodeError)))"
| "bt_receive_loop st client_addr (BtData message snd_result # evs) =
     (if \<not> running st then (st, [], Returns)
      else
        (case handle_message st client_addr message snd_result of
           (st1, tr, Returns) \<Rightarrow>
             (case bt_receive_loop st1 client_addr evs of
                (st2, tr2, c) \<Rightarrow> (st2, tr @ tr2, c))
         | (st1, tr, c) \<Rightarrow> (st1, tr, c)))"

text \<open>
  \<open>MockBluetoothRobotServer.handle_client\<close>: the loop, the two \<open>except\<close> clauses and
  the \<open>finally\<close> clause, which closes the client socket (whatever \<open>close\<close> raises is
  discarded) and clears the slot.
\<close>

definition bt_handle_client ::
  "MockBluetoothRobotServer \<Rightarrow> string \<Rightarrow> bt_event list
     \<Rightarrow> MockBluetoothRobotServer \<times> effect list \<times> completion" where
  "bt_handle_client st client_addr evs =
     (case bt_receive_loop st client_addr evs of
        (st1, tr1, Blocks) \<Rightarrow> (st1, tr1, Blocks)
      | (st1, tr1, c) \<Rightarrow>
          (let (tr2, c2) =
                 (case c of
                    Raises (Error BluetoothError) \<Rightarrow>
                      ([LogInfo (''Client disconnected: '' @ client_addr)], Returns)
                  | Raises (Error e) \<Rightarrow>
                      ([LogErrorExn (''Error handling client '' @ client_addr @ '': '') (Error e)],
                       Returns)
                  | _ \<Rightarrow> ([], c));
               (tr3, st2) =
                 (case client_sock st1 of
                    Some s \<Rightarrow> ([CloseClient], st1\<lparr>client_sock := None\<rparr>)
                  | None \<Rightarrow> ([], st1))
           in (st2, tr1 @ tr2 @ tr3, c2)))"

text \<open>\<open>MockBluetoothRobotServer.shutdown\<close>; every \<open>close\<close> is inside a bare \<open>except\<close>.\<close>

definition bt_shutdown ::
  "MockBluetoothRobotServer \<Rightarrow> MockBluetoothRobotServer \<times> effect list" where
  "bt_shutdown st =
     (let st1 = st\<lparr>running := False\<rparr>
      in (st1,
          [LogInfo (CHR 0x0A # ''Shutting down server...'')]
          @ (if client_sock st1 \<noteq> None then [CloseClient] else [])
          @ (if server_sock st1 \<noteq> None then [StopAdvertising, CloseServer] else [])
          @ [LogSummary (command_count st1), LogInfo ''Server stopped'']))"

text \<open>
  What \<open>server_sock.accept()\<close> gives next: a client (its socket, its address and what
  that socket will deliver) or an exception.
\<close>

datatype accept_event = Accepted nat string "bt_event list" | AcceptRaises exn

text \<open>The \<open>while self.running\<close> loop of \<open>start\<close>, one client at a time.\<close>

fun accept_loop ::
  "MockBluetoothRobotServer \<Rightarrow> accept_event list
     \<Rightarrow> MockBluetoothRobotServer \<times> effect list \<times> completion" where
  "accept_loop st [] =
     (if \<not> running st then (st, [], Returns)
      else (st, [LogInfo ''Waiting for client connection...''], Blocks))"
| "accept_loop st (ev # evs) =
     (if \<not> running st then (st, [], Returns)
      else
        (let tr0 = [LogInfo ''Waiting for client connection...''];
             (st1, tr1, c) =
               (case ev of
                  AcceptRaises e \<Rightarrow> (st, [], Raises e)
                | Accepted sock client_addr script \<Rightarrow>
                    (case bt_handle_client (st\<lparr>client_sock := Some sock\<rparr>) client_addr script of
                       (st2, tr2, c2) \<Rightarrow>
                         (st2, LogInfo (''Client connected: '' @ client_addr) # tr2, c2)))
         in case c of
              Blocks \<Rightarrow> (st1, tr0 @ tr1, Blocks)
            | Returns \<Rightarrow>
                (case accept_loop st1 evs of (st3, tr3, c3) \<Rightarrow> (st3, tr0 @ tr1 @ tr3, c3))
            | Raises (Error BluetoothError) \<Rightarrow>
                (case accept_loop st1 evs of
                   (st3, tr3, c3) \<Rightarrow>
                     (st3,
                      tr0 @ tr1
                      @ (if running st1
                         then [LogErrorExn ''Bluetooth error: '' (Error BluetoothError)] else [])
                      @ tr3,
                      c3))
            | Raises (Interrupt KeyboardInterrupt) \<Rightarrow> (st1, tr0 @ tr1, Returns)
            | Raises e \<Rightarrow> (st1, tr0 @ tr1, Raises e)))"

text \<open>
  The library calls of \<open>start\<close> before the accept loop, each with what it does in this
  run, and the clients that arrive.
\<close>

record bt_env =
  socket_result :: "error + nat"
  bind_result :: "error option"
  getsockname_result :: "error + nat"
  listen_result :: "error option"
  advertise_result :: "error option"
  accepts :: "accept_event list"

definition bt_banner :: "MockBluetoothRobotServer \<Rightarrow> effect list" where
  "bt_banner st =
     [Print ''Mock Hexapod Bluetooth Robot Server'',
      LogInfo (''Service Name: '' @ SERVER_NAME),
      LogInfo (''Service UUID: '' @ SERVICE_UUID),
      LogAcks (send_acks st)]"

text \<open>The \<open>try\<close> block of \<open>MockBluetoothRobotServer.start\<close>.\<close>

definition bt_start_body ::
  "MockBluetoothRobotServer \<Rightarrow> bt_env
     \<Rightarrow> MockBluetoothRobotServer \<times> effect list \<times> completion" where
  "bt_start_body st env =
     (case socket_result env of
        Inl e \<Rightarrow> (st, [], Raises (Error e))
      | Inr sock \<Rightarrow>
          (let st1 = st\<lparr>server_sock := Some sock\<rparr>
           in case bind_result env of
                Some e \<Rightarrow> (st1, [], Raises (Error e))
              | None \<Rightarrow>
                  (case getsockname_result env of
                     Inl e \<Rightarrow> (st1, [], Raises (Error e))
                   | Inr port \<Rightarrow>
                       (case listen_result env of
                          Some e \<Rightarrow> (st1, [], Raises (Error e))
                        | None \<Rightarrow>
                            (case advertise_result env of
                               Some e \<Rightarrow> (st1, [LogListening port], Raises (Error e))
                             | None \<Rightarrow>
                                 (let tr = [LogListening port,
                                            LogInfo ''Server is running! Waiting for connections...'',
                                            LogInfo (''Press Ctrl+C to stop'' @ [CHR 0x0A])];
                                      st2 = st1\<lparr>running := True\<rparr>
                                  in case accept_loop st2 (accepts env) of
                                       (st3, tr3, c) \<Rightarrow> (st3, tr @ tr3, c)))))))"

text \<open>\<open>MockBluetoothRobotServer.start\<close>: banner, \<open>try\<close> block, \<open>except\<close>, \<open>finally\<close>.\<close>

definition bt_start ::
  "MockBluetoothRobotServer \<Rightarrow> bt_env
     \<Rightarrow> MockBluetoothRobotServer \<times> effect list \<times> completion" where
  "bt_start st env =
     (case bt_start_body st env of
        (st1, tr1, Blocks) \<Rightarrow> (st1, bt_banner st @ tr1, Blocks)
      | (st1, tr1, c) \<Rightarrow>
          (let (tr2, c2) =
                 (case c of
                    Raises (Error BluetoothError) \<Rightarrow>
                      ([LogErrorExn ''Failed to start Bluetooth server: '' (Error BluetoothError),
                        LogError ''Make sure Bluetooth is enabled and you have the necessary permissions''],
                       Returns)
                  | Raises (Error e) \<Rightarrow> ([LogErrorExn ''Unexpected error: '' (Error e)], Returns)
                  | _ \<Rightarrow> ([], c))
           in case bt_shutdown st1 of
                (st2, tr3) \<Rightarrow> (st2, bt_banner st @ tr1 @ tr2 @ tr3, c2)))"

text \<open>
  The exit status of the process: a \<open>main\<close> that returns and \<open>sys.exit(0)\<close> give
  success, any other code and any exception nobody caught give failure.
\<close>

datatype exit_status = Success | Failure

fun exit_of :: "completion \<Rightarrow> exit_status option" where
  "exit_of Returns = Some Success"
| "exit_of (Raises (Interrupt (SystemExit n))) = Some (if n = 0 then Success else Failure)"
| "exit_of (Raises e) = Some Failure"
| "exit_of Blocks = None"

definition bt_init :: "bool \<Rightarrow> MockBluetoothRobotServer" where
  "bt_init acks =
     \<lparr>send_acks = acks, command_count = 0,
      server_sock = None, client_sock = None, running = False\<rparr>"

text \<open>\<open>main\<close> of \<open>mock_bluetooth_server.py\<close>, after the arguments are parsed.\<close>

definition bt_main :: "bool \<Rightarrow> bt_env \<Rightarrow> effect list \<times> exit_status option" where
  "bt_main acks env =
     (case bt_start (bt_init acks) env of (st, tr, c) \<Rightarrow> (tr, exit_of c))"

text \<open>
  The module as a program: the imports at its top are inside a \<open>try\<close>, and an
  \<open>ImportError\<close> there prints what is missing and ends the process with \<open>sys.exit(1)\<close>;
  otherwise \<open>main\<close> runs.
\<close>

definition bt_program :: "bool \<Rightarrow> bool \<Rightarrow> bt_env \<Rightarrow> effect list \<times> exit_status option" where
  "bt_program import_fails acks env =
     (if import_fails
      then ([Print ''Error: Missing required package'',
             Print (CHR 0x0A # ''Please install required packages:''),
             Print ''  pip3 install pybluez colorama'',
             Print (CHR 0x0A # ''On macOS, you may also need to install PyObjC:''),
             Print ''  pip3 install pyobjc''],
            exit_of (Raises (Interrupt (SystemExit 1))))
      else bt_main acks env)"

section \<open>The WebSocket server: startup and shutdown\<close>

text \<open>
  The library calls of the WebSocket server, each with what it does in this run: the
  four socket calls of \<open>get_local_ip\<close>, the three steps of \<open>register_mdns\<close>, the
  bind of \<open>websockets.serve\<close>, the sessions served, how the wait on
  \<open>asyncio.Future()\<close> ends (\<open>None\<close>: it never does) and the two calls of
  \<open>unregister_mdns\<close>. An alarm that goes off during one of these two calls makes it
  raise \<open>TimeoutError\<close>.
\<close>

record ws_env =
  probe_socket :: "error option"
  probe_connect :: "error option"
  probe_getsockname :: "error + string"
  probe_close :: "error option"
  zeroconf_result :: "error option"
  service_info_result :: "error option"
  register_result :: "error option"
  serve_result :: "error option"
  schedule :: "sched list"
  wait_result :: "exn option"
  unregister_result :: "error option"
  zeroconf_close_result :: "error option"

text \<open>The \<open>try\<close> block of \<open>get_local_ip\<close>.\<close>

definition probe :: "'a ws_env_scheme \<Rightarrow> error + string" where
  "probe env =
     (case probe_socket env of
        Some e \<Rightarrow> Inl e
      | None \<Rightarrow>
          (case probe_connect env of
             Some e \<Rightarrow> Inl e
           | None \<Rightarrow>
               (case probe_getsockname env of
                  Inl e \<Rightarrow> Inl e
                | Inr local_ip \<Rightarrow>
                    (case probe_close env of
                       Some e \<Rightarrow> Inl e
                     | None \<Rightarrow> Inr local_ip))))"

definition get_local_ip :: "'a ws_env_scheme \<Rightarrow> exn + string" where
  "get_local_ip env =
     (case probe env of
        Inr local_ip \<Rightarrow> Inr local_ip
      | Inl e \<Rightarrow> Inr ''127.0.0.1'')"

definition service_name :: string where
  "service_name = ''robot-spider'' @ ''.'' @ MDNS_SERVICE_TYPE"

definition registration_failed :: "error \<Rightarrow> effect list" where
  "registration_failed e =
     [LogErrorExn ''Failed to register mDNS service: '' (Error e),
      LogWarning ''Server will run without mDNS advertisement'']"

text \<open>\<open>MockRobotServer.register_mdns\<close>.\<close>

definition register_mdns ::
  "MockRobotServer \<Rightarrow> string \<Rightarrow> 'a ws_env_scheme \<Rightarrow> MockRobotServer \<times> effect list" where
  "register_mdns st ip_address env =
     (case zeroconf_result env of
        Some e \<Rightarrow> (st, registration_failed e)
      | None \<Rightarrow>
          (let st1 = st\<lparr>zeroconf := Some ()\<rparr>
           in case service_info_result env of
                Some e \<Rightarrow> (st1, registration_failed e)
              | None \<Rightarrow>
                  (let st2 = st1\<lparr>service_info :=
                               Some \<lparr>svc_type = MDNS_SERVICE_TYPE, svc_name = service_name,
                                     svc_address = ip_address, svc_port = WEBSOCKET_PORT,
                                     svc_server = MDNS_HOSTNAME\<rparr>\<rparr>
                   in case register_result env of
                        Some e \<Rightarrow> (st2, registration_failed e)
                      | None \<Rightarrow>
                          (st2,
                           [LogInfo (''mDNS service registered as '' @ quoted service_name),
                            LogInfo (''  Hostname: '' @ MDNS_HOSTNAME)]))))"

definition cleanup_failed :: "error \<Rightarrow> effect list" where
  "cleanup_failed e =
     (if e = TimeoutError
      then [LogWarning ''mDNS unregistration timed out (service will expire naturally)'']
      else [LogWarningExn ''mDNS cleanup error (service will expire): '' (Error e)])"

text \<open>
  \<open>MockRobotServer.unregister_mdns\<close>. It changes no attribute of the server, so the
  model returns what it does to the outside only.
\<close>

definition unregister_mdns :: "MockRobotServer \<Rightarrow> 'a ws_env_scheme \<Rightarrow> effect list" where
  "unregister_mdns st env =
     (if zeroconf st \<noteq> None \<and> service_info st \<noteq> None
      then
        [SetAlarmHandler, Alarm 2]
        @ (case unregister_result env of
             Some e \<Rightarrow> [UnregisterService (Some e), RestoreAlarmHandler] @ cleanup_failed e
           | None \<Rightarrow>
               [UnregisterService None]
               @ (case zeroconf_close_result env of
                    Some e \<Rightarrow> [CloseZeroconf (Some e), RestoreAlarmHandler] @ cleanup_failed e
                  | None \<Rightarrow>
                      [CloseZeroconf None, Alarm 0, LogInfo ''mDNS service unregistered'',
                       RestoreAlarmHandler]))
      else [])"

text \<open>\<open>MockRobotServer.shutdown\<close>.\<close>

definition ws_shutdown :: "MockRobotServer \<Rightarrow> 'a ws_env_scheme \<Rightarrow> effect list" where
  "ws_shutdown st env =
     [LogInfo (CHR 0x0A # ''Shutting down server...'')]
     @ unregister_mdns st env
     @ [LogSummary (command_count st), LogInfo ''Server stopped'']"

definition ws_banner :: "MockRobotServer \<Rightarrow> string \<Rightarrow> effect list" where
  "ws_banner st local_ip =
     [Print ''Mock Hexapod Robot Server'',
      LogInfo (''Local IP: '' @ local_ip),
      LogInfo ''WebSocket Port: 8080'',
      LogInfo (''mDNS Service Name: '' @ service_name),
      LogInfo (''mDNS Hostname: '' @ MDNS_HOSTNAME),
      LogAcks (send_acks st)]"

text \<open>
  \<open>MockRobotServer.start\<close>: the address probe, the banner, the registration, then the
  server. While the future is awaited the library runs a handler for each connection.
\<close>

definition ws_start ::
  "MockRobotServer \<Rightarrow> ws_env \<Rightarrow> MockRobotServer \<times> effect list \<times> completion" where
  "ws_start st env =
     (case get_local_ip env of
        Inl e \<Rightarrow> (st, [], Raises e)
      | Inr local_ip \<Rightarrow>
          (case register_mdns st local_ip env of
             (st1, tr1) \<Rightarrow>
               (let tr = ws_banner st local_ip @ tr1 @ [LogInfo ''WebSocket server starting...'']
                in case serve_result env of
                     Some e \<Rightarrow> (st1, tr, Raises (Error e))
                   | None \<Rightarrow>
                       (case ws_serve st1 Map.empty (schedule env) of
                          (st2, tr2) \<Rightarrow>
                            (let tr3 = tr
                                   @ [LogInfo ''Server is running! Waiting for connections...'',
                                      LogInfo (''Press Ctrl+C to stop'' @ [CHR 0x0A])]
                                   @ tr2
                             in case wait_result env of
                                  None \<Rightarrow> (st2, tr3, Blocks)
                                | Some (Interrupt CancelledError) \<Rightarrow> (st2, tr3, Returns)
                                | Some e \<Rightarrow> (st2, tr3, Raises e))))))"

definition ws_init :: "bool \<Rightarrow> MockRobotServer" where
  "ws_init acks =
     \<lparr>send_acks = acks, command_count = 0,
      connected_clients = {}, zeroconf = None, service_info = None\<rparr>"

text \<open>
  \<open>main\<close> of \<open>mock_robot_server.py\<close> under \<open>asyncio.run\<close>, after the arguments are
  parsed: \<open>main\<close> drops a \<open>KeyboardInterrupt\<close> and always runs \<open>shutdown\<close>; the
  module drops a \<open>KeyboardInterrupt\<close> and a \<open>CancelledError\<close>.
\<close>

definition ws_main :: "bool \<Rightarrow> ws_env \<Rightarrow> effect list \<times> exit_status option" where
  "ws_main acks env =
     (case ws_start (ws_init acks) env of
        (st, tr, Blocks) \<Rightarrow> (tr, None)
      | (st, tr, c) \<Rightarrow>
          (let c1 = (if c = Raises (Interrupt KeyboardInterrupt) then Returns else c);
               tr1 = tr @ ws_shutdown st env;
               c2 = (if c1 = Raises (Interrupt KeyboardInterrupt)
                        \<or> c1 = Raises (Interrupt CancelledError)
                     then Returns else c1)
           in (tr1, exit_of c2)))"

section \<open>Reading a run\<close>

text \<open>The three parts of what a call gives back.\<close>

definition state_of :: "'s \<times> effect list \<times> completion \<Rightarrow> 's" where
  "state_of r = fst r"

definition trace_of :: "'s \<times> effect list \<times> completion \<Rightarrow> effect list" where
  "trace_of r = fst (snd r)"

definition completion_of :: "'s \<times> effect list \<times> completion \<Rightarrow> completion" where
  "completion_of r = snd (snd r)"

text \<open>
  A message classified as a valid command leaves one \<open>LogCommand\<close> line, a message
  classified as invalid one \<open>LogInvalid\<close> line; a write to the client leaves a \<open>Send\<close>.
\<close>

fun is_command :: "effect \<Rightarrow> bool" where
  "is_command (LogCommand c a) = True"
| "is_command _ = False"

fun is_invalid :: "effect \<Rightarrow> bool" where
  "is_invalid (LogInvalid c a) = True"
| "is_invalid _ = False"

fun is_send :: "effect \<Rightarrow> bool" where
  "is_send (Send m r) = True"
| "is_send _ = False"

definition valid_commands :: "effect list \<Rightarrow> nat" where
  "valid_commands tr = length (filter is_command tr)"

definition invalid_commands :: "effect list \<Rightarrow> nat" where
  "invalid_commands tr = length (filter is_invalid tr)"

definition closes :: "effect list \<Rightarrow> nat" where
  "closes tr = length (filter (\<lambda>e. e = CloseClient) tr)"

text \<open>The events that end a session: everything but a message.\<close>

fun ws_ends :: "ws_event \<Rightarrow> bool" where
  "ws_ends (WsMessage m r) = False"
| "ws_ends _ = True"

fun bt_ends :: "bt_event \<Rightarrow> bool" where
  "bt_ends (BtData m r) = False"
| "bt_ends _ = True"


text \<open>The exception \<open>register_mdns\<close> meets in a run, if any: that of the first step to fail.\<close>

definition registration_error :: "'a ws_env_scheme \<Rightarrow> error option" where
  "registration_error env =
     (case zeroconf_result env of
        Some e \<Rightarrow> Some e
      | None \<Rightarrow>
          (case service_info_result env of
             Some e \<Rightarrow> Some e
           | None \<Rightarrow> register_result env))"

text \<open>The exception the startup of the Bluetooth server meets before it accepts, if any.\<close>

definition bt_startup_error :: "'a bt_env_scheme \<Rightarrow> error option" where
  "bt_startup_error env =
     (case socket_result env of
        Inl e \<Rightarrow> Some e
      | Inr sock \<Rightarrow>
          (case bind_result env of
             Some e \<Rightarrow> Some e
           | None \<Rightarrow>
               (case getsockname_result env of
                  Inl e \<Rightarrow> Some e
                | Inr port \<Rightarrow>
                    (case listen_result env of
                       Some e \<Rightarrow> Some e
                     | None \<Rightarrow> advertise_result env))))"

text \<open>The line the \<open>except\<close> clauses of \<open>MockBluetoothRobotServer.start\<close> log for an error.\<close>

definition bt_cause :: "error \<Rightarrow> effect" where
  "bt_cause e =
     (if e = BluetoothError
      then LogErrorExn ''Failed to start Bluetooth server: '' (Error BluetoothError)
      else LogErrorExn ''Unexpected error: '' (Error e))"

text \<open>How \<open>start\<close> ends once the server runs, by the way the awaited future ends.\<close>

definition ws_wait :: "exn option \<Rightarrow> completion" where
  "ws_wait r =
     (case r of
        None \<Rightarrow> Blocks
      | Some (Interrupt CancelledError) \<Rightarrow> Returns
      | Some e \<Rightarrow> Raises e)"

section \<open>Example runs\<close>

text \<open>
  Concrete environments on which the servers are run below: two interleaved WebSocket
  sessions ended by a cancellation, and variants of it in which the bind, the mDNS
  registration, the retraction or the address probe fails; a Bluetooth client whose
  session is ended by Ctrl+C, and a Bluetooth adapter that cannot bind.
\<close>

definition w_env :: ws_env where
  "w_env = \<lparr>probe_socket = None, probe_connect = None, probe_getsockname = Inr ''192.168.1.7'',
     probe_close = None, zeroconf_result = None, service_info_result = None,
     register_result = None, serve_result = None,
     schedule = [Connect 1 ''10.0.0.2:5000'', Connect 2 ''10.0.0.3:5001'',
                 Deliver 1 (WsMessage ''forward'' None), Deliver 2 (WsMessage ''jump'' None),
                 Deliver 2 (WsMessage '' LEFT '' None), Deliver 1 WsClosedOK,
                 Deliver 2 (WsMessage ''spin'' None)],
     wait_result = Some (Interrupt CancelledError),
     unregister_result = None, zeroconf_close_result = None\<rparr>"


definition b_env :: bt_env where
  "b_env = \<lparr>socket_result = Inr 1, bind_result = None, getsockname_result = Inr 3,
     listen_result = None, advertise_result = None,
     accepts = [Accepted 2 ''AA:BB:CC:DD:EE:FF''
                  [BtData ''forward'' None, BtRaises (Interrupt (SystemExit 0))]]\<rparr>"

definition b_env_bind_fails :: bt_env where
  "b_env_bind_fails = b_env\<lparr>bind_result := Some BluetoothError\<rparr>"

definition w_env_bind_fails :: ws_env where
  "w_env_bind_fails = w_env\<lparr>serve_result := Some OtherError\<rparr>"

definition w_env_no_mdns :: ws_env where
  "w_env_no_mdns = w_env\<lparr>zeroconf_result := Some OtherError\<rparr>"


definition w_env_no_route :: ws_env where
  "w_env_no_route = w_env\<lparr>probe_connect := Some OtherError\<rparr>"

section \<open>Counting the commands\<close>
lemma valid_commands_append [simp]:
  "valid_commands (xs @ ys) = valid_commands xs + valid_commands ys"
  by (simp add: valid_commands_def)

lemma valid_commands_Nil [simp]: "valid_commands [] = 0"
  by (simp add: valid_commands_def)

lemma valid_commands_Cons [simp]:
  "valid_commands (e # tr) = (if is_command e then 1 else 0) + valid_commands tr"
  by (simp add: valid_commands_def)

lemma handle_message_count:
  "handle_message st a m r = (st1, tr, c) \<Longrightarrow>
     command_count st1 = command_count st + int (valid_commands tr)"
  by (auto simp: handle_message_def Let_def split: if_splits option.splits)

lemma handle_message_frame:
  "handle_message st a m r = (st1, tr, c) \<Longrightarrow> st1 = st\<lparr>command_count := command_count st1\<rparr>"
  by (auto simp: handle_message_def Let_def split: if_splits option.splits)

lemma ws_receive_loop_count:
  "ws_receive_loop st a evs = (st1, tr, c) \<Longrightarrow>
     command_count st1 = command_count st + int (valid_commands tr)"
proof (induction evs arbitrary: st st1 tr c)
  case Nil
  then show ?case by simp
next
  case (Cons ev evs)
  show ?case
  proof (cases ev)
    case (WsMessage m r)
    obtain s1 t1 c1 where hm: "handle_message st a m r = (s1, t1, c1)"
      by (cases "handle_message st a m r") auto
    note cnt = handle_message_count [OF hm]
    show ?thesis
    proof (cases "c1 = Returns")
      case True
      obtain s2 t2 c2 where lp: "ws_receive_loop s1 a evs = (s2, t2, c2)"
        by (cases "ws_receive_loop s1 a evs") auto
      from Cons.prems WsMessage hm True lp
      have "st1 = s2" "tr = t1 @ t2" by auto
      with Cons.IH [OF lp] cnt show ?thesis by simp
    next
      case False
      with Cons.prems WsMessage hm have "st1 = s1" "tr = t1"
        by (auto split: completion.splits)
      with cnt show ?thesis by simp
    qed
  qed (use Cons.prems in auto)
qed

lemma ws_receive_loop_frame:
  "ws_receive_loop st a evs = (st1, tr, c) \<Longrightarrow> st1 = st\<lparr>command_count := command_count st1\<rparr>"
proof (induction evs arbitrary: st st1 tr c)
  case Nil
  then show ?case by simp
next
  case (Cons ev evs)
  show ?case
  proof (cases ev)
    case (WsMessage m r)
    obtain s1 t1 c1 where hm: "handle_message st a m r = (s1, t1, c1)"
      by (cases "handle_message st a m r") auto
    note fr = handle_message_frame [OF hm]
    show ?thesis
    proof (cases "c1 = Returns")
      case True
      obtain s2 t2 c2 where lp: "ws_receive_loop s1 a evs = (s2, t2, c2)"
        by (cases "ws_receive_loop s1 a evs") auto
      from Cons.prems WsMessage hm True lp
      have "st1 = s2" by auto
      with Cons.IH [OF lp] fr show ?thesis
        by (metis robot_server.update_convs(2) robot_server.surjective)
    next
      case False
      with Cons.prems WsMessage hm have "st1 = s1"
        by (auto split: completion.splits)
      with fr show ?thesis by simp
    qed
  qed (use Cons.prems in auto)
qed

lemma ws_finish_count:
  "ws_finish st w a c = (st1, tr, c1) \<Longrightarrow>
     command_count st1 = command_count st \<and> valid_commands tr = 0"
  by (auto simp: ws_finish_def Let_def split: completion.splits exn.splits error.splits)

lemma ws_connect_count:
  "ws_connect st w a = (st1, tr) \<Longrightarrow>
     command_count st1 = command_count st \<and> valid_commands tr = 0"
  by (auto simp: ws_connect_def Let_def)

lemma ws_serve_count:
  "ws_serve st live sch = (st1, tr) \<Longrightarrow>
     command_count st1 = command_count st + int (valid_commands tr)"
proof (induction sch arbitrary: st live st1 tr)
  case Nil
  then show ?case by simp
next
  case (Cons x sch)
  show ?case
  proof (cases x)
    case (Connect w a)
    show ?thesis
    proof (cases "w \<in> dom live")
      case True
      with Cons.prems Connect have "ws_serve st live sch = (st1, tr)" by simp
      then show ?thesis by (rule Cons.IH)
    next
      case False
      obtain s0 t0 where co: "ws_connect st w a = (s0, t0)"
        by (cases "ws_connect st w a") auto
      obtain s2 t2 where sv: "ws_serve s0 (live(w \<mapsto> a)) sch = (s2, t2)"
        by (cases "ws_serve s0 (live(w \<mapsto> a)) sch") auto
      from Cons.prems Connect False co sv have "st1 = s2" "tr = t0 @ t2" by auto
      with Cons.IH [OF sv] ws_connect_count [OF co] show ?thesis by simp
    qed
  next
    case (Deliver w ev)
    show ?thesis
    proof (cases "live w")
      case None
      with Cons.prems Deliver have "ws_serve st live sch = (st1, tr)" by simp
      then show ?thesis by (rule Cons.IH)
    next
      case (Some a)
      obtain s1 t1 c1 where lp: "ws_receive_loop st a [ev] = (s1, t1, c1)"
        by (cases "ws_receive_loop st a [ev]") auto
      note cnt1 = ws_receive_loop_count [OF lp]
      show ?thesis
      proof (cases "c1 = Blocks")
        case True
        obtain s2 t2 where sv: "ws_serve s1 live sch = (s2, t2)"
          by (cases "ws_serve s1 live sch") auto
        from Cons.prems Deliver Some lp True sv have "st1 = s2" "tr = t1 @ t2" by auto
        with Cons.IH [OF sv] cnt1 show ?thesis by simp
      next
        case False
        obtain s2 t2 c2 where fi: "ws_finish s1 w a c1 = (s2, t2, c2)"
          by (cases "ws_finish s1 w a c1") auto
        obtain s3 t3 where sv: "ws_serve s2 (live(w := None)) sch = (s3, t3)"
          by (cases "ws_serve s2 (live(w := None)) sch") auto
        from Cons.prems Deliver Some lp False fi sv have "st1 = s3" "tr = t1 @ t2 @ t3"
          by (auto split: completion.splits)
        with Cons.IH [OF sv] cnt1 ws_finish_count [OF fi] show ?thesis by simp
      qed
    qed
  qed
qed

lemma ws_handle_client_count:
  "ws_handle_client st w a evs = (st1, tr, c) \<Longrightarrow>
     command_count st1 = command_count st + int (valid_commands tr)"
proof -
  assume h: "ws_handle_client st w a evs = (st1, tr, c)"
  obtain s0 t0 where co: "ws_connect st w a = (s0, t0)"
    by (cases "ws_connect st w a") auto
  obtain s1 t1 c1 where lp: "ws_receive_loop s0 a evs = (s1, t1, c1)"
    by (cases "ws_receive_loop s0 a evs") auto
  note cnt = ws_connect_count [OF co] ws_receive_loop_count [OF lp]
  show ?thesis
  proof (cases "c1 = Blocks")
    case True
    with h co lp have "st1 = s1" "tr = t0 @ t1" by (auto simp: ws_handle_client_def)
    with cnt show ?thesis by simp
  next
    case False
    obtain s2 t2 c2 where fi: "ws_finish s1 w a c1 = (s2, t2, c2)"
      by (cases "ws_finish s1 w a c1") auto
    from h co lp False fi have "st1 = s2" "tr = t0 @ t1 @ t2"
      by (auto simp: ws_handle_client_def split: completion.splits)
    with cnt ws_finish_count [OF fi] show ?thesis by simp
  qed
qed

lemma bt_receive_loop_count:
  "bt_receive_loop st a evs = (st1, tr, c) \<Longrightarrow>
     command_count st1 = command_count st + int (valid_commands tr)"
proof (induction evs arbitrary: st st1 tr c)
  case Nil
  then show ?case by (simp split: if_splits)
next
  case (Cons ev evs)
  show ?case
  proof (cases "running st")
    case False
    with Cons.prems show ?thesis by (cases ev) auto
  next
    case True
    show ?thesis
    proof (cases ev)
      case (BtData m r)
      obtain s1 t1 c1 where hm: "handle_message st a m r = (s1, t1, c1)"
        by (cases "handle_message st a m r") auto
      note cnt = handle_message_count [OF hm]
      show ?thesis
      proof (cases "c1 = Returns")
        case R: True
        obtain s2 t2 c2 where lp: "bt_receive_loop s1 a evs = (s2, t2, c2)"
          by (cases "bt_receive_loop s1 a evs") auto
        from Cons.prems BtData hm True R lp
        have "st1 = s2" "tr = t1 @ t2" by auto
        with Cons.IH [OF lp] cnt show ?thesis by simp
      next
        case F: False
        with Cons.prems BtData hm True have "st1 = s1" "tr = t1"
          by (auto split: completion.splits)
        with cnt show ?thesis by simp
      qed
    qed (use Cons.prems True in auto)
  qed
qed

lemma bt_handle_client_count:
  "bt_handle_client st a evs = (st1, tr, c) \<Longrightarrow>
     command_count st1 = command_count st + int (valid_commands tr)"
proof -
  assume h: "bt_handle_client st a evs = (st1, tr, c)"
  obtain s1 t1 c1 where lp: "bt_receive_loop st a evs = (s1, t1, c1)"
    by (cases "bt_receive_loop st a evs") auto
  note cnt = bt_receive_loop_count [OF lp]
  from h lp have "command_count st1 = command_count s1 \<and> valid_commands tr = valid_commands t1"
    by (auto simp: bt_handle_client_def Let_def
             split: completion.splits exn.splits error.splits option.splits)
  with cnt show ?thesis by simp
qed

lemma accept_loop_count:
  "accept_loop st acc = (st1, tr, c) \<Longrightarrow>
     command_count st1 = command_count st + int (valid_commands tr)"
proof (induction acc arbitrary: st st1 tr c)
  case Nil
  then show ?case by (auto split: if_splits)
next
  case (Cons ev acc)
  show ?case
  proof (cases "running st")
    case False
    with Cons.prems show ?thesis by simp
  next
    case True
    define r where "r =
      (case ev of
         AcceptRaises e \<Rightarrow> (st, [], Raises e)
       | Accepted sock client_addr script \<Rightarrow>
           (case bt_handle_client (st\<lparr>client_sock := Some sock\<rparr>) client_addr script of
              (st2, tr2, c2) \<Rightarrow>
                (st2, LogInfo (''Client connected: '' @ client_addr) # tr2, c2)))"
    obtain s1 t1 c1 where r: "r = (s1, t1, c1)" by (cases r) auto
    have cnt1: "command_count s1 = command_count st + int (valid_commands t1)"
    proof (cases ev)
      case (AcceptRaises e)
      with r show ?thesis by (simp add: r_def)
    next
      case (Accepted sock a script)
      obtain s2 t2 c2 where hc:
        "bt_handle_client (st\<lparr>client_sock := Some sock\<rparr>) a script = (s2, t2, c2)"
        by (cases "bt_handle_client (st\<lparr>client_sock := Some sock\<rparr>) a script") auto
      from bt_handle_client_count [OF hc] r Accepted hc show ?thesis
        by (auto simp: r_def)
    qed
    obtain s3 t3 c3 where lp: "accept_loop s1 acc = (s3, t3, c3)"
      by (cases "accept_loop s1 acc") auto
    note ih = Cons.IH [OF lp]
    from Cons.prems True r lp
    have "(st1 = s1 \<and> valid_commands tr = valid_commands t1)
          \<or> (st1 = s3 \<and> valid_commands tr = valid_commands t1 + valid_commands t3)"
      unfolding accept_loop.simps r_def [symmetric]
      by (auto simp: Let_def split: completion.splits exn.splits error.splits interrupt.splits if_splits)
    with cnt1 ih show ?thesis by auto
  qed
qed

lemma bt_shutdown_count:
  "bt_shutdown st = (st1, tr) \<Longrightarrow>
     command_count st1 = command_count st \<and> valid_commands tr = 0"
  by (auto simp: bt_shutdown_def Let_def)

lemma bt_start_body_count:
  "bt_start_body st env = (st1, tr, c) \<Longrightarrow>
     command_count st1 = command_count st + int (valid_commands tr)"
proof -
  assume h: "bt_start_body st env = (st1, tr, c)"
  show ?thesis
  proof (cases "\<exists>sock port. socket_result env = Inr sock \<and> bind_result env = None
            \<and> getsockname_result env = Inr port \<and> listen_result env = None
            \<and> advertise_result env = None")
    case True
    then obtain sock port where e: "socket_result env = Inr sock" "bind_result env = None"
      "getsockname_result env = Inr port" "listen_result env = None"
      "advertise_result env = None" by blast
    obtain s3 t3 c3 where lp:
      "accept_loop (st\<lparr>server_sock := Some sock, running := True\<rparr>) (accepts env) = (s3, t3, c3)"
      by (cases "accept_loop (st\<lparr>server_sock := Some sock, running := True\<rparr>) (accepts env)") auto
    from h e lp have "st1 = s3" "valid_commands tr = valid_commands t3"
      by (auto simp: bt_start_body_def Let_def)
    with accept_loop_count [OF lp] show ?thesis by simp
  next
    case False
    with h show ?thesis
      by (auto simp: bt_start_body_def Let_def split: sum.splits option.splits)
  qed
qed

lemma bt_banner_count [simp]: "valid_commands (bt_banner st) = 0"
  by (simp add: bt_banner_def)

lemma bt_start_count:
  "bt_start st env = (st1, tr, c) \<Longrightarrow>
     command_count st1 = command_count st + int (valid_commands tr)"
proof -
  assume h: "bt_start st env = (st1, tr, c)"
  obtain s1 t1 c1 where b: "bt_start_body st env = (s1, t1, c1)"
    by (cases "bt_start_body st env") auto
  obtain s2 t2 where sh: "bt_shutdown s1 = (s2, t2)"
    by (cases "bt_shutdown s1") auto
  from h b sh have "command_count st1 = command_count s1 \<and> valid_commands tr = valid_commands t1"
    using bt_shutdown_count [OF sh]
    by (auto simp: bt_start_def Let_def
             split: completion.splits exn.splits error.splits)
  with bt_start_body_count [OF b] show ?thesis by simp
qed

lemma register_mdns_count:
  "register_mdns st ip env = (st1, tr) \<Longrightarrow>
     command_count st1 = command_count st \<and> valid_commands tr = 0"
  by (auto simp: register_mdns_def registration_failed_def Let_def split: option.splits)

lemma ws_banner_count [simp]: "valid_commands (ws_banner st ip) = 0"
  by (simp add: ws_banner_def)

lemma get_local_ip_returns: "\<exists>ip. get_local_ip env = Inr ip"
  by (simp add: get_local_ip_def split: sum.splits)

lemma ws_start_count:
  "ws_start st env = (st1, tr, c) \<Longrightarrow>
     command_count st1 = command_count st + int (valid_commands tr)"
proof -
  assume h: "ws_start st env = (st1, tr, c)"
  obtain ip where ip: "get_local_ip env = Inr ip"
    using get_local_ip_returns by blast
  obtain s1 t1 where rg: "register_mdns st ip env = (s1, t1)"
    by (cases "register_mdns st ip env") auto
  note c1 = register_mdns_count [OF rg]
  show ?thesis
  proof (cases "serve_result env")
    case (Some e)
    with h ip rg have "st1 = s1" "valid_commands tr = 0"
      using c1 by (auto simp: ws_start_def Let_def)
    with c1 show ?thesis by simp
  next
    case None
    obtain s2 t2 where sv: "ws_serve s1 Map.empty (schedule env) = (s2, t2)"
      by (cases "ws_serve s1 Map.empty (schedule env)") auto
    from h ip rg None sv have "st1 = s2" "valid_commands tr = valid_commands t2"
      using c1
      by (auto simp: ws_start_def Let_def split: option.splits exn.splits interrupt.splits)
    with c1 ws_serve_count [OF sv] show ?thesis by simp
  qed
qed

text \<open>
  C1. The cumulative command counter never decreases and counts exactly the messages
  classified as valid commands.
\<close>

theorem command_count_counts_valid_commands:
  "command_count (state_of (ws_start st env))
     = command_count st + int (valid_commands (trace_of (ws_start st env)))
   \<and> command_count (state_of (bt_start bst benv))
     = command_count bst + int (valid_commands (trace_of (bt_start bst benv)))
   \<and> command_count (fst (ws_serve st live sch))
     = command_count st + int (valid_commands (snd (ws_serve st live sch)))
   \<and> command_count (state_of (ws_start (ws_init acks) env))
     = int (valid_commands (trace_of (ws_start (ws_init acks) env)))
   \<and> command_count (state_of (bt_start (bt_init acks) benv))
     = int (valid_commands (trace_of (bt_start (bt_init acks) benv)))
   \<and> command_count st \<le> command_count (fst (ws_serve st live sch))
   \<and> command_count bst \<le> command_count (state_of (bt_start bst benv))
   \<and> command_count (state_of (handle_message gst a m r))
     = command_count gst + (if lower (strip m) \<in> VALID_COMMANDS then 1 else 0)
   \<and> (lower (strip m) \<notin> VALID_COMMANDS \<longrightarrow> state_of (handle_message gst a m r) = gst)"
proof -
  have ws: "command_count (state_of (ws_start s e))
              = command_count s + int (valid_commands (trace_of (ws_start s e)))" for s e
    by (cases "ws_start s e") (simp add: state_of_def trace_of_def ws_start_count)
  have bt: "command_count (state_of (bt_start s e))
              = command_count s + int (valid_commands (trace_of (bt_start s e)))" for s e
    by (cases "bt_start s e") (simp add: state_of_def trace_of_def bt_start_count)
  have sv: "command_count (fst (ws_serve st live sch))
              = command_count st + int (valid_commands (snd (ws_serve st live sch)))"
    by (cases "ws_serve st live sch") (simp add: ws_serve_count)
  have hm: "command_count (state_of (handle_message gst a m r))
     = command_count gst + (if lower (strip m) \<in> VALID_COMMANDS then 1 else 0)"
    by (simp add: handle_message_def Let_def state_of_def split: option.splits)
  have inv: "lower (strip m) \<notin> VALID_COMMANDS \<longrightarrow> state_of (handle_message gst a m r) = gst"
    by (simp add: handle_message_def Let_def state_of_def split: option.splits)
  have i1: "command_count (ws_init acks) = 0" by (simp add: ws_init_def)
  have i2: "command_count (bt_init acks) = 0" by (simp add: bt_init_def)
  show ?thesis
    using ws [of st env] bt [of bst benv] sv hm inv ws [of "ws_init acks" env]
      bt [of "bt_init acks" benv] i1 i2
    by simp
qed

theorem command_count_counts_valid_commands_witness:
  "command_count (state_of (ws_start (ws_init True) w_env)) = 2
   \<and> valid_commands (trace_of (ws_start (ws_init True) w_env)) = 2
   \<and> invalid_commands (trace_of (ws_start (ws_init True) w_env)) = 2
   \<and> lower (strip ''jump'') \<notin> VALID_COMMANDS
   \<and> state_of (handle_message (ws_init True) ''10.0.0.3:5001'' ''jump'' None) = ws_init True"
proof -
  have v: "valid_commands (trace_of (ws_start (ws_init True) w_env)) = 2"
    by code_simp
  have i: "invalid_commands (trace_of (ws_start (ws_init True) w_env)) = 2"
    by code_simp
  have n: "lower (strip ''jump'') \<notin> VALID_COMMANDS"
    by code_simp
  from command_count_counts_valid_commands
         [where acks = True and env = w_env and m = "''jump''" and gst = "ws_init True"
            and a = "''10.0.0.3:5001''" and r = None]
  have "command_count (state_of (ws_start (ws_init True) w_env))
          = int (valid_commands (trace_of (ws_start (ws_init True) w_env)))"
    and "lower (strip ''jump'') \<notin> VALID_COMMANDS \<longrightarrow>
          state_of (handle_message (ws_init True) ''10.0.0.3:5001'' ''jump'' None) = ws_init True"
    by blast+
  with v i n show ?thesis by simp
qed

section \<open>Replies\<close>

lemma handle_message_valid:
  assumes "lower (strip message) = c" and "c \<in> VALID_COMMANDS" and "send_acks st"
  shows "handle_message st a message None
           = (st\<lparr>command_count := command_count st + 1\<rparr>,
              [LogCommand c a, Send (''OK:'' @ c) None, PrintAck (''OK:'' @ c)], Returns)"
  using assms by (simp add: handle_message_def Let_def)


lemma trace_of_ws_message:
  assumes "handle_message st a message r = (st1, tr, Returns)"
  shows "trace_of (ws_receive_loop st a (WsMessage message r # evs))
           = tr @ trace_of (ws_receive_loop st1 a evs)"
  using assms by (simp add: trace_of_def split: prod.splits)

lemma trace_of_bt_data:
  assumes "handle_message st a message r = (st1, tr, Returns)" and "running st"
  shows "trace_of (bt_receive_loop st a (BtData message r # evs))
           = tr @ trace_of (bt_receive_loop st1 a evs)"
  using assms by (simp add: trace_of_def split: prod.splits)

text \<open>
  C2. A message that, trimmed and lower-cased, is one of the five commands is classified
  as that command, and with acknowledgments enabled the reply is exactly \<open>OK:\<close> followed
  by the lower-case command, in both servers.
\<close>

theorem valid_command_acknowledged:
  assumes "lower (strip message) = c" and "c \<in> VALID_COMMANDS"
    and "send_acks st" and "send_acks wst" and "send_acks bst" and "running bst"
  shows "handle_message st a message None
           = (st\<lparr>command_count := command_count st + 1\<rparr>,
              [LogCommand c a, Send (''OK:'' @ c) None, PrintAck (''OK:'' @ c)], Returns)
         \<and> trace_of (ws_receive_loop wst a (WsMessage message None # evs))
           = [LogCommand c a, Send (''OK:'' @ c) None, PrintAck (''OK:'' @ c)]
             @ trace_of (ws_receive_loop (wst\<lparr>command_count := command_count wst + 1\<rparr>) a evs)
         \<and> trace_of (bt_receive_loop bst a (BtData message None # bevs))
           = [LogCommand c a, Send (''OK:'' @ c) None, PrintAck (''OK:'' @ c)]
             @ trace_of (bt_receive_loop (bst\<lparr>command_count := command_count bst + 1\<rparr>) a bevs)"
proof -
  note hm = handle_message_valid [OF assms(1,2)]
  show ?thesis
    using hm [OF assms(3)] trace_of_ws_message [OF hm [OF assms(4)]]
      trace_of_bt_data [OF hm [OF assms(5)] assms(6)]
    by simp
qed

theorem valid_command_acknowledged_witness:
  "lower (strip '' FoRwArD '') = ''forward'' \<and> ''forward'' \<in> VALID_COMMANDS
   \<and> send_acks (ws_init True)
   \<and> handle_message (ws_init True) ''10.0.0.2:5000'' '' FoRwArD '' None
       = ((ws_init True)\<lparr>command_count := 1\<rparr>,
          [LogCommand ''forward'' ''10.0.0.2:5000'', Send ''OK:forward'' None,
           PrintAck ''OK:forward''], Returns)"
proof -
  have l: "lower (strip '' FoRwArD '') = ''forward''" by code_simp
  have v: "''forward'' \<in> VALID_COMMANDS" by (simp add: VALID_COMMANDS_def)
  have s: "send_acks (ws_init True)" by (simp add: ws_init_def)
  have b: "send_acks ((bt_init True)\<lparr>running := True\<rparr>)"
    "running ((bt_init True)\<lparr>running := True\<rparr>)" by (simp_all add: bt_init_def)
  have z: "command_count (ws_init True) = 0" by (simp add: ws_init_def)
  from valid_command_acknowledged [OF l v s s b, of "''10.0.0.2:5000''"] l v s z
  show ?thesis by simp
qed




section \<open>Acknowledgments disabled\<close>

lemma handle_message_quiet:
  assumes "\<not> send_acks st"
  shows "handle_message st a m r
           = (if lower (strip m) \<in> VALID_COMMANDS
              then (st\<lparr>command_count := command_count st + 1\<rparr>,
                    [LogCommand (lower (strip m)) a], Returns)
              else (st, [LogInvalid (lower (strip m)) a], Returns))"
  using assms by (simp add: handle_message_def Let_def)

lemma handle_message_no_send:
  assumes "\<not> send_acks st" and "handle_message st a m r = (st1, tr, c)"
  shows "filter is_send tr = [] \<and> \<not> send_acks st1"
  using assms by (auto simp: handle_message_quiet split: if_splits)

lemma ws_receive_loop_no_send:
  "\<not> send_acks st \<Longrightarrow> ws_receive_loop st a evs = (st1, tr, c) \<Longrightarrow> filter is_send tr = []"
proof (induction evs arbitrary: st st1 tr c)
  case Nil
  then show ?case by simp
next
  case (Cons ev evs)
  show ?case
  proof (cases ev)
    case (WsMessage m r)
    obtain s1 t1 c1 where hm: "handle_message st a m r = (s1, t1, c1)"
      by (cases "handle_message st a m r") auto
    note q = handle_message_no_send [OF Cons.prems(1) hm]
    show ?thesis
    proof (cases "c1 = Returns")
      case True
      obtain s2 t2 c2 where lp: "ws_receive_loop s1 a evs = (s2, t2, c2)"
        by (cases "ws_receive_loop s1 a evs") auto
      from Cons.prems WsMessage hm True lp have "tr = t1 @ t2" by auto
      with Cons.IH [OF _ lp] q show ?thesis by simp
    next
      case False
      with Cons.prems WsMessage hm have "tr = t1"
        by (auto split: completion.splits)
      with q show ?thesis by simp
    qed
  qed (use Cons.prems in auto)
qed

lemma bt_receive_loop_no_send:
  "\<not> send_acks st \<Longrightarrow> bt_receive_loop st a evs = (st1, tr, c) \<Longrightarrow> filter is_send tr = []"
proof (induction evs arbitrary: st st1 tr c)
  case Nil
  then show ?case by (auto split: if_splits)
next
  case (Cons ev evs)
  show ?case
  proof (cases "running st")
    case False
    with Cons.prems show ?thesis by (cases ev) auto
  next
    case True
    show ?thesis
    proof (cases ev)
      case (BtData m r)
      obtain s1 t1 c1 where hm: "handle_message st a m r = (s1, t1, c1)"
        by (cases "handle_message st a m r") auto
      note q = handle_message_no_send [OF Cons.prems(1) hm]
      show ?thesis
      proof (cases "c1 = Returns")
        case R: True
        obtain s2 t2 c2 where lp: "bt_receive_loop s1 a evs = (s2, t2, c2)"
          by (cases "bt_receive_loop s1 a evs") auto
        from Cons.prems BtData hm True R lp have "tr = t1 @ t2" by auto
        with Cons.IH [OF _ lp] q show ?thesis by simp
      next
        case F: False
        with Cons.prems BtData hm True have "tr = t1"
          by (auto split: completion.splits)
        with q show ?thesis by simp
      qed
    qed (use Cons.prems True in auto)
  qed
qed

lemma ws_finish_no_send:
  "ws_finish st w a c = (st1, tr, c1) \<Longrightarrow> filter is_send tr = []"
  by (auto simp: ws_finish_def Let_def split: completion.splits exn.splits error.splits)

lemma ws_handle_client_no_send:
  assumes "\<not> send_acks st"
  shows "filter is_send (trace_of (ws_handle_client st w a evs)) = []"
proof -
  obtain s0 t0 where co: "ws_connect st w a = (s0, t0)"
    by (cases "ws_connect st w a") auto
  then have s0: "\<not> send_acks s0" "filter is_send t0 = []"
    using assms by (auto simp: ws_connect_def Let_def)
  obtain s1 t1 c1 where lp: "ws_receive_loop s0 a evs = (s1, t1, c1)"
    by (cases "ws_receive_loop s0 a evs") auto
  note q = ws_receive_loop_no_send [OF s0(1) lp]
  obtain s2 t2 c2 where fi: "ws_finish s1 w a c1 = (s2, t2, c2)"
    by (cases "ws_finish s1 w a c1") auto
  from co lp fi have "trace_of (ws_handle_client st w a evs) = t0 @ t1
      \<or> trace_of (ws_handle_client st w a evs) = t0 @ t1 @ t2"
    by (auto simp: ws_handle_client_def trace_of_def split: completion.splits)
  with s0 q ws_finish_no_send [OF fi] show ?thesis by auto
qed

lemma bt_handle_client_no_send:
  assumes "\<not> send_acks st"
  shows "filter is_send (trace_of (bt_handle_client st a evs)) = []"
proof -
  obtain s1 t1 c1 where lp: "bt_receive_loop st a evs = (s1, t1, c1)"
    by (cases "bt_receive_loop st a evs") auto
  note q = bt_receive_loop_no_send [OF assms lp]
  from lp have "filter is_send (trace_of (bt_handle_client st a evs)) = filter is_send t1"
    by (auto simp: bt_handle_client_def trace_of_def Let_def
             split: completion.splits exn.splits error.splits option.splits)
  with q show ?thesis by simp
qed

text \<open>
  C4. With acknowledgments disabled neither handler writes anything to the client,
  whatever it receives; handling a message leaves one log line and changes nothing of the
  server but the counter, and that for a valid command only.
\<close>

theorem no_reply_without_acks:
  assumes "\<not> send_acks st" and "\<not> send_acks wst" and "\<not> send_acks bst"
  shows "filter is_send (trace_of (ws_handle_client wst w a evs)) = []
         \<and> filter is_send (trace_of (bt_handle_client bst a bevs)) = []
         \<and> handle_message st a m r
             = (if lower (strip m) \<in> VALID_COMMANDS
                then (st\<lparr>command_count := command_count st + 1\<rparr>,
                      [LogCommand (lower (strip m)) a], Returns)
                else (st, [LogInvalid (lower (strip m)) a], Returns))"
  using ws_handle_client_no_send [OF assms(2)] bt_handle_client_no_send [OF assms(3)]
    handle_message_quiet [OF assms(1)]
  by simp

theorem no_reply_without_acks_witness:
  "\<not> send_acks (ws_init False)
   \<and> filter is_send (trace_of (ws_handle_client (ws_init False) 1 ''10.0.0.2:5000''
        [WsMessage ''forward'' None, WsMessage ''spin'' None, WsClosedOK])) = []
   \<and> trace_of (ws_handle_client (ws_init False) 1 ''10.0.0.2:5000''
        [WsMessage ''forward'' None, WsMessage ''spin'' None, WsClosedOK])
       = [LogInfo ''Client connected: 10.0.0.2:5000'', LogClients 1,
          LogCommand ''forward'' ''10.0.0.2:5000'', LogInvalid ''spin'' ''10.0.0.2:5000'',
          LogClients 0]"
proof -
  have s: "\<not> send_acks (ws_init False)" by (simp add: ws_init_def)
  have b: "\<not> send_acks (bt_init False)" by (simp add: bt_init_def)
  have t: "trace_of (ws_handle_client (ws_init False) 1 ''10.0.0.2:5000''
        [WsMessage ''forward'' None, WsMessage ''spin'' None, WsClosedOK])
       = [LogInfo ''Client connected: 10.0.0.2:5000'', LogClients 1,
          LogCommand ''forward'' ''10.0.0.2:5000'', LogInvalid ''spin'' ''10.0.0.2:5000'',
          LogClients 0]"
    by code_simp
  from no_reply_without_acks [OF s s b, of 1 "''10.0.0.2:5000''"
      "[WsMessage ''forward'' None, WsMessage ''spin'' None, WsClosedOK]"]
  have "filter is_send (trace_of (ws_handle_client (ws_init False) 1 ''10.0.0.2:5000''
        [WsMessage ''forward'' None, WsMessage ''spin'' None, WsClosedOK])) = []"
    by blast
  with s t show ?thesis by simp
qed

section \<open>The end of a session\<close>

lemma bt_receive_loop_frame:
  "bt_receive_loop st a evs = (st1, tr, c) \<Longrightarrow> st1 = st\<lparr>command_count := command_count st1\<rparr>"
proof (induction evs arbitrary: st st1 tr c)
  case Nil
  then show ?case by (auto split: if_splits)
next
  case (Cons ev evs)
  show ?case
  proof (cases "running st")
    case False
    with Cons.prems show ?thesis by (cases ev) auto
  next
    case True
    show ?thesis
    proof (cases ev)
      case (BtData m r)
      obtain s1 t1 c1 where hm: "handle_message st a m r = (s1, t1, c1)"
        by (cases "handle_message st a m r") auto
      note fr = handle_message_frame [OF hm]
      show ?thesis
      proof (cases "c1 = Returns")
        case R: True
        obtain s2 t2 c2 where lp: "bt_receive_loop s1 a evs = (s2, t2, c2)"
          by (cases "bt_receive_loop s1 a evs") auto
        from Cons.prems BtData hm True R lp have "st1 = s2" by auto
        with Cons.IH [OF lp] fr show ?thesis
          by (metis robot_server.update_convs(2) robot_server.surjective)
      next
        case F: False
        with Cons.prems BtData hm True have "st1 = s1"
          by (auto split: completion.splits)
        with fr show ?thesis by simp
      qed
    qed (use Cons.prems True in auto)
  qed
qed

lemma closes_append [simp]: "closes (xs @ ys) = closes xs + closes ys"
  by (simp add: closes_def)

lemma closes_Nil [simp]: "closes [] = 0"
  by (simp add: closes_def)

lemma closes_Cons [simp]: "closes (e # tr) = (if e = CloseClient then 1 else 0) + closes tr"
  by (simp add: closes_def)

lemma handle_message_closes:
  "handle_message st a m r = (st1, tr, c) \<Longrightarrow> closes tr = 0 \<and> c \<noteq> Blocks"
  by (auto simp: handle_message_def Let_def split: if_splits option.splits)

lemma ws_receive_loop_closes:
  "ws_receive_loop st a evs = (st1, tr, c) \<Longrightarrow> closes tr = 0"
proof (induction evs arbitrary: st st1 tr c)
  case Nil
  then show ?case by simp
next
  case (Cons ev evs)
  show ?case
  proof (cases ev)
    case (WsMessage m r)
    obtain s1 t1 c1 where hm: "handle_message st a m r = (s1, t1, c1)"
      by (cases "handle_message st a m r") auto
    note q = handle_message_closes [OF hm]
    show ?thesis
    proof (cases "c1 = Returns")
      case True
      obtain s2 t2 c2 where lp: "ws_receive_loop s1 a evs = (s2, t2, c2)"
        by (cases "ws_receive_loop s1 a evs") auto
      from Cons.prems WsMessage hm True lp have "tr = t1 @ t2" by auto
      with Cons.IH [OF lp] q show ?thesis by simp
    next
      case False
      with Cons.prems WsMessage hm have "tr = t1"
        by (auto split: completion.splits)
      with q show ?thesis by simp
    qed
  qed (use Cons.prems in auto)
qed

lemma bt_receive_loop_closes:
  "bt_receive_loop st a evs = (st1, tr, c) \<Longrightarrow> closes tr = 0"
proof (induction evs arbitrary: st st1 tr c)
  case Nil
  then show ?case by (auto split: if_splits)
next
  case (Cons ev evs)
  show ?case
  proof (cases "running st")
    case False
    with Cons.prems show ?thesis by (cases ev) auto
  next
    case True
    show ?thesis
    proof (cases ev)
      case (BtData m r)
      obtain s1 t1 c1 where hm: "handle_message st a m r = (s1, t1, c1)"
        by (cases "handle_message st a m r") auto
      note q = handle_message_closes [OF hm]
      show ?thesis
      proof (cases "c1 = Returns")
        case R: True
        obtain s2 t2 c2 where lp: "bt_receive_loop s1 a evs = (s2, t2, c2)"
          by (cases "bt_receive_loop s1 a evs") auto
        from Cons.prems BtData hm True R lp have "tr = t1 @ t2" by auto
        with Cons.IH [OF lp] q show ?thesis by simp
      next
        case F: False
        with Cons.prems BtData hm True have "tr = t1"
          by (auto split: completion.splits)
        with q show ?thesis by simp
      qed
    qed (use Cons.prems True in auto)
  qed
qed

lemma ws_receive_loop_ends:
  "\<exists>ev\<in>set evs. ws_ends ev \<Longrightarrow> completion_of (ws_receive_loop st a evs) \<noteq> Blocks"
proof (induction evs arbitrary: st)
  case Nil
  then show ?case by simp
next
  case (Cons ev evs)
  show ?case
  proof (cases ev)
    case (WsMessage m r)
    obtain s1 t1 c1 where hm: "handle_message st a m r = (s1, t1, c1)"
      by (cases "handle_message st a m r") auto
    note q = handle_message_closes [OF hm]
    from Cons.prems WsMessage have ex: "\<exists>ev\<in>set evs. ws_ends ev" by simp
    show ?thesis
    proof (cases "c1 = Returns")
      case True
      with WsMessage hm Cons.IH [OF ex, of s1] show ?thesis
        by (auto simp: completion_of_def split: prod.splits)
    next
      case False
      with WsMessage hm q show ?thesis
        by (auto simp: completion_of_def split: completion.splits)
    qed
  qed (simp_all add: completion_of_def)
qed

lemma bt_receive_loop_ends:
  "\<exists>ev\<in>set evs. bt_ends ev \<Longrightarrow> completion_of (bt_receive_loop st a evs) \<noteq> Blocks"
proof (induction evs arbitrary: st)
  case Nil
  then show ?case by simp
next
  case (Cons ev evs)
  show ?case
  proof (cases ev)
    case (BtData m r)
    obtain s1 t1 c1 where hm: "handle_message st a m r = (s1, t1, c1)"
      by (cases "handle_message st a m r") auto
    note q = handle_message_closes [OF hm]
    from Cons.prems BtData have ex: "\<exists>ev\<in>set evs. bt_ends ev" by simp
    show ?thesis
    proof (cases "c1 = Returns")
      case True
      with BtData hm Cons.IH [OF ex, of s1] show ?thesis
        by (auto simp: completion_of_def split: prod.splits)
    next
      case False
      with BtData hm q show ?thesis
        by (auto simp: completion_of_def split: completion.splits)
    qed
  qed (simp_all add: completion_of_def)
qed

lemma ws_handle_client_end:
  assumes "ws_handle_client st w a evs = (st1, tr, c)"
  shows "completion_of (ws_receive_loop (fst (ws_connect st w a)) a evs) = Blocks \<longrightarrow> c = Blocks"
    and "c \<noteq> Blocks \<longrightarrow> connected_clients st1 = connected_clients st - {w} \<and> closes tr = 0"
proof -
  obtain s0 t0 where co: "ws_connect st w a = (s0, t0)"
    by (cases "ws_connect st w a") auto
  then have s0: "connected_clients s0 = insert w (connected_clients st)" "closes t0 = 0"
    by (auto simp: ws_connect_def Let_def)
  obtain s1 t1 c1 where lp: "ws_receive_loop s0 a evs = (s1, t1, c1)"
    by (cases "ws_receive_loop s0 a evs") auto
  from ws_receive_loop_frame [OF lp] have s1: "connected_clients s1 = connected_clients s0"
    by (metis MockRobotServer.select_convs(1) MockRobotServer.surjective
        robot_server.update_convs(2))
  note cl = ws_receive_loop_closes [OF lp]
  show "completion_of (ws_receive_loop (fst (ws_connect st w a)) a evs) = Blocks \<longrightarrow> c = Blocks"
    using assms co lp by (auto simp: ws_handle_client_def completion_of_def)
  show "c \<noteq> Blocks \<longrightarrow> connected_clients st1 = connected_clients st - {w} \<and> closes tr = 0"
  proof
    assume nb: "c \<noteq> Blocks"
    with assms co lp have c1: "c1 \<noteq> Blocks"
      by (auto simp: ws_handle_client_def)
    obtain s2 t2 c2 where fi: "ws_finish s1 w a c1 = (s2, t2, c2)"
      by (cases "ws_finish s1 w a c1") auto
    then have f: "connected_clients s2 = connected_clients s1 - {w}" "closes t2 = 0"
      by (auto simp: ws_finish_def Let_def split: completion.splits exn.splits error.splits)
    from assms co lp c1 fi have "st1 = s2" "tr = t0 @ t1 @ t2"
      by (auto simp: ws_handle_client_def split: completion.splits)
    with f s1 s0 cl show "connected_clients st1 = connected_clients st - {w} \<and> closes tr = 0"
      by auto
  qed
qed

lemma bt_handle_client_end:
  assumes "bt_handle_client st a evs = (st1, tr, c)"
  shows "completion_of (bt_receive_loop st a evs) = Blocks \<longrightarrow> c = Blocks"
    and "c \<noteq> Blocks \<longrightarrow> client_sock st1 = None
           \<and> closes tr = (if client_sock st = None then 0 else 1)"
proof -
  obtain s1 t1 c1 where lp: "bt_receive_loop st a evs = (s1, t1, c1)"
    by (cases "bt_receive_loop st a evs") auto
  from bt_receive_loop_frame [OF lp] have s1: "client_sock s1 = client_sock st"
    by (metis MockBluetoothRobotServer.select_convs(2) MockBluetoothRobotServer.surjective
        robot_server.update_convs(2))
  note cl = bt_receive_loop_closes [OF lp]
  show "completion_of (bt_receive_loop st a evs) = Blocks \<longrightarrow> c = Blocks"
    using assms lp by (auto simp: bt_handle_client_def completion_of_def)
  show "c \<noteq> Blocks \<longrightarrow> client_sock st1 = None
           \<and> closes tr = (if client_sock st = None then 0 else 1)"
  proof
    assume nb: "c \<noteq> Blocks"
    with assms lp have c1: "c1 \<noteq> Blocks"
      by (auto simp: bt_handle_client_def)
    with assms lp s1 cl
    show "client_sock st1 = None \<and> closes tr = (if client_sock st = None then 0 else 1)"
      by (auto simp: bt_handle_client_def Let_def
               split: completion.splits exn.splits error.splits option.splits)
  qed
qed

lemma ws_handle_client_ends:
  assumes "\<exists>ev\<in>set evs. ws_ends ev"
  shows "completion_of (ws_handle_client st w a evs) \<noteq> Blocks"
proof -
  obtain s0 t0 where co: "ws_connect st w a = (s0, t0)"
    by (cases "ws_connect st w a") auto
  obtain s1 t1 c1 where lp: "ws_receive_loop s0 a evs = (s1, t1, c1)"
    by (cases "ws_receive_loop s0 a evs") auto
  from ws_receive_loop_ends [OF assms, of s0 a] lp have c1: "c1 \<noteq> Blocks"
    by (simp add: completion_of_def)
  with co lp show ?thesis
    by (auto simp: ws_handle_client_def completion_of_def ws_finish_def Let_def
             split: completion.splits exn.splits error.splits)
qed

lemma bt_handle_client_ends:
  assumes "\<exists>ev\<in>set evs. bt_ends ev"
  shows "completion_of (bt_handle_client st a evs) \<noteq> Blocks"
proof -
  obtain s1 t1 c1 where lp: "bt_receive_loop st a evs = (s1, t1, c1)"
    by (cases "bt_receive_loop st a evs") auto
  from bt_receive_loop_ends [OF assms, of st a] lp have c1: "c1 \<noteq> Blocks"
    by (simp add: completion_of_def)
  with lp show ?thesis
    by (auto simp: bt_handle_client_def completion_of_def Let_def
             split: completion.splits exn.splits error.splits option.splits)
qed

text \<open>
  C5, as stated: every handler releases its connection exactly once before it returns.
  The WebSocket handler never closes the connection: when the peer disconnects it
  returns with the session removed from the set and no close made.
\<close>

theorem connection_released_once_counterexample:
  "completion_of (ws_handle_client (ws_init False) 1 ''10.0.0.2:5000'' [WsClosedOK]) = Returns
   \<and> closes (trace_of (ws_handle_client (ws_init False) 1 ''10.0.0.2:5000'' [WsClosedOK])) = 0"
  by code_simp

text \<open>
  C5, amended. A handler that has received an event that ends the session (a
  disconnect, an error, any exception) does terminate. On every path on which the
  WebSocket handler terminates, its session is out of the shared set, the other
  sessions stay in it, and the handler itself has closed nothing. On every path on which
  the Bluetooth handler terminates, it has closed the client socket exactly once and
  cleared the slot, so that the shutdown that follows closes no client socket again.
\<close>

theorem session_cleanup_on_every_path:
  "((\<exists>ev\<in>set evs. ws_ends ev) \<longrightarrow> completion_of (ws_handle_client wst w a evs) \<noteq> Blocks)
   \<and> (completion_of (ws_handle_client wst w a evs) \<noteq> Blocks \<longrightarrow>
        connected_clients (state_of (ws_handle_client wst w a evs)) = connected_clients wst - {w}
        \<and> closes (trace_of (ws_handle_client wst w a evs)) = 0)
   \<and> ((\<exists>ev\<in>set bevs. bt_ends ev) \<longrightarrow> completion_of (bt_handle_client bst ba bevs) \<noteq> Blocks)
   \<and> (completion_of (bt_handle_client bst ba bevs) \<noteq> Blocks \<and> client_sock bst \<noteq> None \<longrightarrow>
        closes (trace_of (bt_handle_client bst ba bevs)) = 1
        \<and> client_sock (state_of (bt_handle_client bst ba bevs)) = None
        \<and> closes (snd (bt_shutdown (state_of (bt_handle_client bst ba bevs)))) = 0)"
proof -
  obtain s1 t1 c1 where w: "ws_handle_client wst w a evs = (s1, t1, c1)"
    by (cases "ws_handle_client wst w a evs") auto
  obtain s2 t2 c2 where b: "bt_handle_client bst ba bevs = (s2, t2, c2)"
    by (cases "bt_handle_client bst ba bevs") auto
  have sh: "client_sock s = None \<Longrightarrow> closes (snd (bt_shutdown s)) = 0" for s
    by (simp add: bt_shutdown_def Let_def)
  show ?thesis
    using ws_handle_client_ends [of evs wst w a] bt_handle_client_ends [of bevs bst ba]
      ws_handle_client_end(2) [OF w] bt_handle_client_end(2) [OF b] w b sh [of s2]
    by (auto simp: state_of_def trace_of_def completion_of_def)
qed

theorem session_cleanup_on_every_path_witness:
  "(\<exists>ev\<in>set [WsMessage ''left'' None, WsRaises (Error ConnectionClosed)]. ws_ends ev)
   \<and> completion_of (ws_handle_client ((ws_init False)\<lparr>connected_clients := {2}\<rparr>) 1
        ''10.0.0.2:5000'' [WsMessage ''left'' None, WsRaises (Error ConnectionClosed)]) = Returns
   \<and> connected_clients (state_of (ws_handle_client ((ws_init False)\<lparr>connected_clients := {2}\<rparr>) 1
        ''10.0.0.2:5000'' [WsMessage ''left'' None, WsRaises (Error ConnectionClosed)])) = {2}
   \<and> (\<exists>ev\<in>set [BtData ''left'' None, BtEmpty]. bt_ends ev)
   \<and> client_sock ((bt_init False)\<lparr>client_sock := Some 7, running := True\<rparr>) \<noteq> None
   \<and> closes (trace_of (bt_handle_client ((bt_init False)\<lparr>client_sock := Some 7, running := True\<rparr>)
        ''AA:BB'' [BtData ''left'' None, BtEmpty])) = 1
   \<and> client_sock (state_of (bt_handle_client ((bt_init False)\<lparr>client_sock := Some 7, running := True\<rparr>)
        ''AA:BB'' [BtData ''left'' None, BtEmpty])) = None"
proof -
  have e1: "\<exists>ev\<in>set [WsMessage ''left'' None, WsRaises (Error ConnectionClosed)]. ws_ends ev"
    by simp
  have e2: "\<exists>ev\<in>set [BtData ''left'' None, BtEmpty]. bt_ends ev"
    by simp
  have c1: "completion_of (ws_handle_client ((ws_init False)\<lparr>connected_clients := {2}\<rparr>) 1
        ''10.0.0.2:5000'' [WsMessage ''left'' None, WsRaises (Error ConnectionClosed)]) = Returns"
    by code_simp
  have c2: "completion_of (bt_handle_client ((bt_init False)\<lparr>client_sock := Some 7, running := True\<rparr>)
        ''AA:BB'' [BtData ''left'' None, BtEmpty]) = Returns"
    by code_simp
  have k: "client_sock ((bt_init False)\<lparr>client_sock := Some 7, running := True\<rparr>) \<noteq> None"
    by simp
  have d: "connected_clients ((ws_init False)\<lparr>connected_clients := {2}\<rparr>) - {1} = {2::nat}"
    by simp
  from session_cleanup_on_every_path
         [of "[WsMessage ''left'' None, WsRaises (Error ConnectionClosed)]"
             "(ws_init False)\<lparr>connected_clients := {2}\<rparr>" 1 "''10.0.0.2:5000''"
             "[BtData ''left'' None, BtEmpty]"
             "(bt_init False)\<lparr>client_sock := Some 7, running := True\<rparr>" "''AA:BB''"]
    e1 e2 c1 c2 k d
  show ?thesis by (simp del: set_simps)
qed

section \<open>Exceptions in a handler\<close>











section \<open>Startup failures\<close>

lemma bt_start_body_fails:
  assumes "bt_startup_error env = Some e"
  shows "\<exists>st1 tr. bt_start_body st env = (st1, tr, Raises (Error e))
           \<and> command_count st1 = command_count st \<and> client_sock st1 = client_sock st
           \<and> (tr = [] \<or> (\<exists>port. tr = [LogListening port]))"
  using assms
  by (auto simp: bt_startup_error_def bt_start_body_def Let_def split: sum.splits option.splits)

lemma bt_start_body_fails_accepts:
  assumes "bt_startup_error env = Some e"
  shows "bt_start_body st (env\<lparr>accepts := acc\<rparr>) = bt_start_body st env"
  using assms
  by (auto simp: bt_startup_error_def bt_start_body_def Let_def split: sum.splits option.splits)

lemma bt_main_fails:
  assumes "bt_startup_error env = Some e"
  shows "bt_cause e \<in> set (fst (bt_main acks env))"
    and "LogInfo ''Waiting for client connection...'' \<notin> set (fst (bt_main acks env))"
    and "LogSummary 0 \<in> set (fst (bt_main acks env))"
    and "bt_main acks (env\<lparr>accepts := acc\<rparr>) = bt_main acks env"
proof -
  obtain st1 tr where b: "bt_start_body (bt_init acks) env = (st1, tr, Raises (Error e))"
    and c: "command_count st1 = command_count (bt_init acks)"
    and t: "tr = [] \<or> (\<exists>port. tr = [LogListening port])"
    using bt_start_body_fails [OF assms, of "bt_init acks"] by blast
  have c0: "command_count st1 = 0" using c by (simp add: bt_init_def)
  have st: "bt_start (bt_init acks) env
              = (fst (bt_shutdown st1),
                 bt_banner (bt_init acks) @ tr
                 @ (if e = BluetoothError
                    then [LogErrorExn ''Failed to start Bluetooth server: '' (Error BluetoothError),
                          LogError ''Make sure Bluetooth is enabled and you have the necessary permissions'']
                    else [LogErrorExn ''Unexpected error: '' (Error e)])
                 @ snd (bt_shutdown st1),
                 Returns)"
    using b by (cases e) (simp_all add: bt_start_def Let_def split: prod.splits)
  show "bt_cause e \<in> set (fst (bt_main acks env))"
    using st by (simp add: bt_main_def bt_cause_def)
  show "LogInfo ''Waiting for client connection...'' \<notin> set (fst (bt_main acks env))"
    using st t by (auto simp: bt_main_def bt_banner_def bt_shutdown_def Let_def
                              SERVER_NAME_def SERVICE_UUID_def)
  show "LogSummary 0 \<in> set (fst (bt_main acks env))"
    using st c0 by (simp add: bt_main_def bt_shutdown_def Let_def)
  show "bt_main acks (env\<lparr>accepts := acc\<rparr>) = bt_main acks env"
    by (simp add: bt_main_def bt_start_def bt_start_body_fails_accepts [OF assms])
qed

lemma ws_start_bind_fails:
  assumes "serve_result env = Some e"
  shows "\<exists>st1 ip. get_local_ip env = Inr ip
           \<and> ws_start st env
               = (st1, ws_banner st ip @ snd (register_mdns st ip env)
                       @ [LogInfo ''WebSocket server starting...''], Raises (Error e))
           \<and> command_count st1 = command_count st"
proof -
  obtain ip where ip: "get_local_ip env = Inr ip"
    using get_local_ip_returns by blast
  obtain s1 t1 where rg: "register_mdns st ip env = (s1, t1)"
    by (cases "register_mdns st ip env") auto
  from ip rg assms register_mdns_count [OF rg] show ?thesis
    by (simp add: ws_start_def Let_def)
qed

lemma register_mdns_trace:
  "snd (register_mdns st ip env)
     = (case registration_error env of
          Some e \<Rightarrow> registration_failed e
        | None \<Rightarrow> [LogInfo (''mDNS service registered as '' @ quoted service_name),
                   LogInfo (''  Hostname: '' @ MDNS_HOSTNAME)])"
  by (simp add: register_mdns_def registration_error_def Let_def split: option.splits)

lemma ws_main_bind_fails:
  assumes "serve_result env = Some e"
  shows "snd (ws_main acks env) = Some Failure"
    and "LogInfo ''Server is running! Waiting for connections...'' \<notin> set (fst (ws_main acks env))"
    and "LogSummary 0 \<in> set (fst (ws_main acks env))"
    and "ws_main acks (env\<lparr>schedule := sch\<rparr>) = ws_main acks env"
proof -
  obtain st1 ip where ip: "get_local_ip env = Inr ip"
    and s: "ws_start (ws_init acks) env
               = (st1, ws_banner (ws_init acks) ip @ snd (register_mdns (ws_init acks) ip env)
                       @ [LogInfo ''WebSocket server starting...''], Raises (Error e))"
    and c: "command_count st1 = command_count (ws_init acks)"
    using ws_start_bind_fails [OF assms, of "ws_init acks"] by blast
  have c0: "command_count st1 = 0" using c by (simp add: ws_init_def)
  show "snd (ws_main acks env) = Some Failure"
    using s by (simp add: ws_main_def Let_def)
  show "LogSummary 0 \<in> set (fst (ws_main acks env))"
    using s c0 by (simp add: ws_main_def Let_def ws_shutdown_def)
  show "LogInfo ''Server is running! Waiting for connections...'' \<notin> set (fst (ws_main acks env))"
    using s
    by (auto simp: ws_main_def Let_def ws_shutdown_def ws_banner_def register_mdns_trace
                   registration_failed_def unregister_mdns_def cleanup_failed_def
                   service_name_def MDNS_HOSTNAME_def MDNS_SERVICE_TYPE_def quoted_def
             split: option.splits)
  have p: "probe (env\<lparr>schedule := sch\<rparr>) = probe env"
    by (simp add: probe_def split: option.splits sum.splits)
  have r: "register_mdns st ip (env\<lparr>schedule := sch\<rparr>) = register_mdns st ip env" for st ip
    by (simp add: register_mdns_def Let_def split: option.splits)
  have "ws_start (ws_init acks) (env\<lparr>schedule := sch\<rparr>) = ws_start (ws_init acks) env"
    using assms
    by (simp add: ws_start_def get_local_ip_def p r Let_def split: sum.splits prod.splits)
  moreover have "ws_shutdown st (env\<lparr>schedule := sch\<rparr>) = ws_shutdown st env" for st
    by (simp add: ws_shutdown_def unregister_mdns_def split: option.splits)
  ultimately show "ws_main acks (env\<lparr>schedule := sch\<rparr>) = ws_main acks env"
    by (simp add: ws_main_def split: prod.splits completion.splits)
qed

text \<open>
  Whatever step of the startup fails, neither server serves anybody: the Bluetooth
  server logs the cause and never enters its accept loop, the WebSocket server never
  starts, and both run \<open>shutdown\<close>.
\<close>

lemma startup_failure_serves_nobody:
  "(bt_startup_error benv = Some e \<longrightarrow>
      bt_cause e \<in> set (fst (bt_main acks benv))
      \<and> LogInfo ''Waiting for client connection...'' \<notin> set (fst (bt_main acks benv))
      \<and> LogSummary 0 \<in> set (fst (bt_main acks benv))
      \<and> bt_main acks (benv\<lparr>accepts := acc\<rparr>) = bt_main acks benv)
   \<and> (serve_result env = Some e \<longrightarrow>
      snd (ws_main acks env) = Some Failure
      \<and> LogInfo ''Server is running! Waiting for connections...'' \<notin> set (fst (ws_main acks env))
      \<and> LogSummary 0 \<in> set (fst (ws_main acks env))
      \<and> ws_main acks (env\<lparr>schedule := sch\<rparr>) = ws_main acks env)"
proof (intro conjI impI)
  assume b: "bt_startup_error benv = Some e"
  show "bt_cause e \<in> set (fst (bt_main acks benv))"
    by (rule bt_main_fails(1) [OF b])
  show "LogInfo ''Waiting for client connection...'' \<notin> set (fst (bt_main acks benv))"
    by (rule bt_main_fails(2) [OF b])
  show "LogSummary 0 \<in> set (fst (bt_main acks benv))"
    by (rule bt_main_fails(3) [OF b])
  show "bt_main acks (benv\<lparr>accepts := acc\<rparr>) = bt_main acks benv"
    by (rule bt_main_fails(4) [OF b])
next
  assume w: "serve_result env = Some e"
  show "snd (ws_main acks env) = Some Failure"
    by (rule ws_main_bind_fails(1) [OF w])
  show "LogInfo ''Server is running! Waiting for connections...'' \<notin> set (fst (ws_main acks env))"
    by (rule ws_main_bind_fails(2) [OF w])
  show "LogSummary 0 \<in> set (fst (ws_main acks env))"
    by (rule ws_main_bind_fails(3) [OF w])
  show "ws_main acks (env\<lparr>schedule := sch\<rparr>) = ws_main acks env"
    by (rule ws_main_bind_fails(4) [OF w])
qed

text \<open>
  C7. A startup failure is to end the process with a failure exit status. The
  Bluetooth server does not: when it cannot bind, \<open>start\<close> logs the cause, skips the
  accept loop and returns, \<open>main\<close> returns after it, and the process ends with status
  0. The same program ends with status 1 when its imports fail, and the WebSocket
  server ends with a failure status when it cannot bind.
\<close>

theorem bluetooth_startup_failure_exit_status:
  "bt_startup_error b_env_bind_fails = Some BluetoothError
   \<and> LogErrorExn ''Failed to start Bluetooth server: '' (Error BluetoothError)
       \<in> set (fst (bt_program False False b_env_bind_fails))
   \<and> LogInfo ''Waiting for client connection...''
       \<notin> set (fst (bt_program False False b_env_bind_fails))
   \<and> snd (bt_program False False b_env_bind_fails) = Some Success
   \<and> snd (bt_program True False b_env_bind_fails) = Some Failure
   \<and> snd (ws_main False w_env_bind_fails) = Some Failure"
  by code_simp

section \<open>Service advertisement\<close>

text \<open>The sessions neither read nor write the two mDNS attributes.\<close>

lemma handle_message_mdns:
  "handle_message (st\<lparr>zeroconf := z, service_info := si\<rparr>) a m r
     = (case handle_message st a m r of
          (s, t, c) \<Rightarrow> (s\<lparr>zeroconf := z, service_info := si\<rparr>, t, c))"
  by (simp add: handle_message_def Let_def split: option.splits)

lemma ws_receive_loop_mdns:
  "ws_receive_loop (st\<lparr>zeroconf := z, service_info := si\<rparr>) a evs
     = (case ws_receive_loop st a evs of
          (s, t, c) \<Rightarrow> (s\<lparr>zeroconf := z, service_info := si\<rparr>, t, c))"
proof (induction evs arbitrary: st)
  case Nil
  then show ?case by simp
next
  case (Cons ev evs)
  show ?case
  proof (cases ev)
    case (WsMessage m r)
    obtain s1 t1 c1 where hm: "handle_message st a m r = (s1, t1, c1)"
      by (cases "handle_message st a m r") auto
    obtain s2 t2 c2 where lp: "ws_receive_loop s1 a evs = (s2, t2, c2)"
      by (cases "ws_receive_loop s1 a evs") auto
    from WsMessage hm lp Cons.IH [of s1] show ?thesis
      by (cases c1) (simp_all add: handle_message_mdns)
  qed simp_all
qed

lemma ws_connect_mdns:
  "ws_connect (st\<lparr>zeroconf := z, service_info := si\<rparr>) w a
     = (case ws_connect st w a of (s, t) \<Rightarrow> (s\<lparr>zeroconf := z, service_info := si\<rparr>, t))"
  by (simp add: ws_connect_def Let_def)

lemma ws_finish_mdns:
  "ws_finish (st\<lparr>zeroconf := z, service_info := si\<rparr>) w a c
     = (case ws_finish st w a c of
          (s, t, c1) \<Rightarrow> (s\<lparr>zeroconf := z, service_info := si\<rparr>, t, c1))"
  by (simp add: ws_finish_def Let_def split: completion.splits exn.splits error.splits)

lemma ws_serve_mdns_rel:
  "ws_serve st live sch = (s, t) \<Longrightarrow>
     ws_serve (st\<lparr>zeroconf := z, service_info := si\<rparr>) live sch
       = (s\<lparr>zeroconf := z, service_info := si\<rparr>, t)"
proof (induction sch arbitrary: st live s t)
  case Nil
  then show ?case by auto
next
  case (Cons x sch)
  show ?case
  proof (cases x)
    case (Connect w a)
    show ?thesis
    proof (cases "w \<in> dom live")
      case True
      with Cons.prems Connect have "ws_serve st live sch = (s, t)" by simp
      from Cons.IH [OF this] Connect True show ?thesis by simp
    next
      case False
      obtain s0 t0 where co: "ws_connect st w a = (s0, t0)"
        by (cases "ws_connect st w a") auto
      obtain s1 t1 where sv: "ws_serve s0 (live(w \<mapsto> a)) sch = (s1, t1)"
        by (cases "ws_serve s0 (live(w \<mapsto> a)) sch") auto
      from Cons.prems Connect False co sv have r: "s = s1" "t = t0 @ t1" by auto
      have "ws_serve (st\<lparr>zeroconf := z, service_info := si\<rparr>) live (x # sch)
              = (case ws_serve (s0\<lparr>zeroconf := z, service_info := si\<rparr>) (live(w \<mapsto> a)) sch of
                   (st1, tr1) \<Rightarrow> (st1, t0 @ tr1))"
        using Connect False co by (simp add: ws_connect_mdns)
      also have "\<dots> = (s1\<lparr>zeroconf := z, service_info := si\<rparr>, t0 @ t1)"
        by (simp only: Cons.IH [OF sv] prod.case)
      finally show ?thesis using r by simp
    qed
  next
    case (Deliver w ev)
    show ?thesis
    proof (cases "live w")
      case None
      with Cons.prems Deliver have "ws_serve st live sch = (s, t)" by simp
      from Cons.IH [OF this] Deliver None show ?thesis by simp
    next
      case (Some a)
      obtain s1 t1 c1 where lp: "ws_receive_loop st a [ev] = (s1, t1, c1)"
        by (cases "ws_receive_loop st a [ev]") auto
      have lp': "ws_receive_loop (st\<lparr>zeroconf := z, service_info := si\<rparr>) a [ev]
                   = (s1\<lparr>zeroconf := z, service_info := si\<rparr>, t1, c1)"
        by (simp only: ws_receive_loop_mdns lp prod.case)
      show ?thesis
      proof (cases "c1 = Blocks")
        case True
        obtain s2 t2 where sv: "ws_serve s1 live sch = (s2, t2)"
          by (cases "ws_serve s1 live sch") auto
        from Cons.prems Deliver Some lp True sv have r: "s = s2" "t = t1 @ t2" by auto
        have "ws_serve (st\<lparr>zeroconf := z, service_info := si\<rparr>) live (x # sch)
                = (case ws_serve (s1\<lparr>zeroconf := z, service_info := si\<rparr>) live sch of
                     (st2, tr2) \<Rightarrow> (st2, t1 @ tr2))"
          using Deliver Some lp' True by (simp del: ws_receive_loop.simps)
        also have "\<dots> = (s2\<lparr>zeroconf := z, service_info := si\<rparr>, t1 @ t2)"
          by (simp only: Cons.IH [OF sv] prod.case)
        finally show ?thesis using r by simp
      next
        case False
        obtain s2 t2 c2 where fi: "ws_finish s1 w a c1 = (s2, t2, c2)"
          by (cases "ws_finish s1 w a c1") auto
        have fi': "ws_finish (s1\<lparr>zeroconf := z, service_info := si\<rparr>) w a c1
                     = (s2\<lparr>zeroconf := z, service_info := si\<rparr>, t2, c2)"
          by (simp only: ws_finish_mdns fi prod.case)
        obtain s3 t3 where sv: "ws_serve s2 (live(w := None)) sch = (s3, t3)"
          by (cases "ws_serve s2 (live(w := None)) sch") auto
        from Cons.prems Deliver Some lp False fi sv have r: "s = s3" "t = t1 @ t2 @ t3"
          by (auto split: completion.splits)
        have "ws_serve (st\<lparr>zeroconf := z, service_info := si\<rparr>) live (x # sch)
                = (case ws_serve (s2\<lparr>zeroconf := z, service_info := si\<rparr>) (live(w := None)) sch of
                     (st3, tr3) \<Rightarrow> (st3, t1 @ t2 @ tr3))"
          using Deliver Some lp' False fi'
          by (cases c1) (simp_all del: ws_receive_loop.simps)
        also have "\<dots> = (s3\<lparr>zeroconf := z, service_info := si\<rparr>, t1 @ t2 @ t3)"
          by (simp only: Cons.IH [OF sv] prod.case)
        finally show ?thesis using r by simp
      qed
    qed
  qed
qed

lemma ws_serve_mdns:
  "ws_serve (st\<lparr>zeroconf := z, service_info := si\<rparr>) live sch
     = (case ws_serve st live sch of (s, t) \<Rightarrow> (s\<lparr>zeroconf := z, service_info := si\<rparr>, t))"
  by (cases "ws_serve st live sch") (simp add: ws_serve_mdns_rel)

lemma ws_serve_mdns_fields:
  "zeroconf (fst (ws_serve st live sch)) = zeroconf st
   \<and> service_info (fst (ws_serve st live sch)) = service_info st"
proof -
  obtain s t where sv: "ws_serve st live sch = (s, t)"
    by (cases "ws_serve st live sch") auto
  have a: "st\<lparr>zeroconf := zeroconf st, service_info := service_info st\<rparr> = st"
    by simp
  have "ws_serve (st\<lparr>zeroconf := zeroconf st, service_info := service_info st\<rparr>) live sch
          = (s\<lparr>zeroconf := zeroconf st, service_info := service_info st\<rparr>, t)"
    by (simp only: ws_serve_mdns sv prod.case)
  then have e: "(s, t) = (s\<lparr>zeroconf := zeroconf st, service_info := service_info st\<rparr>, t)"
    by (simp only: a sv)
  have "zeroconf (fst (s, t))
          = zeroconf (fst (s\<lparr>zeroconf := zeroconf st, service_info := service_info st\<rparr>, t))"
    by (rule arg_cong [OF e])
  moreover
  have "service_info (fst (s, t))
          = service_info (fst (s\<lparr>zeroconf := zeroconf st, service_info := service_info st\<rparr>, t))"
    by (rule arg_cong [OF e])
  ultimately show ?thesis by (simp add: sv)
qed

lemma register_mdns_state:
  "\<exists>z si. fst (register_mdns st ip env) = st\<lparr>zeroconf := z, service_info := si\<rparr>"
proof -
  have "fst (register_mdns st ip env)
          = st\<lparr>zeroconf := zeroconf (fst (register_mdns st ip env)),
                service_info := service_info (fst (register_mdns st ip env))\<rparr>"
    by (simp add: register_mdns_def Let_def split: option.splits)
  then show ?thesis by blast
qed

lemma ws_start_serves:
  assumes "serve_result env = None" and "get_local_ip env = Inr ip"
  shows "trace_of (ws_start st env)
           = ws_banner st ip @ snd (register_mdns st ip env)
             @ [LogInfo ''WebSocket server starting...'',
                LogInfo ''Server is running! Waiting for connections...'',
                LogInfo (''Press Ctrl+C to stop'' @ [CHR 0x0A])]
             @ snd (ws_serve st Map.empty (schedule env))"
    and "completion_of (ws_start st env) = ws_wait (wait_result env)"
    and "state_of (ws_start st env)
           = fst (ws_serve (fst (register_mdns st ip env)) Map.empty (schedule env))"
proof -
  obtain s1 t1 where rg: "register_mdns st ip env = (s1, t1)"
    by (cases "register_mdns st ip env") auto
  obtain z si where s1: "s1 = st\<lparr>zeroconf := z, service_info := si\<rparr>"
    using register_mdns_state [of st ip env] rg by auto
  obtain s2 t2 where sv: "ws_serve st Map.empty (schedule env) = (s2, t2)"
    by (cases "ws_serve st Map.empty (schedule env)") auto
  have sv1: "ws_serve s1 Map.empty (schedule env) = (s2\<lparr>zeroconf := z, service_info := si\<rparr>, t2)"
    using sv by (simp add: s1 ws_serve_mdns)
  show "trace_of (ws_start st env)
           = ws_banner st ip @ snd (register_mdns st ip env)
             @ [LogInfo ''WebSocket server starting...'',
                LogInfo ''Server is running! Waiting for connections...'',
                LogInfo (''Press Ctrl+C to stop'' @ [CHR 0x0A])]
             @ snd (ws_serve st Map.empty (schedule env))"
    using assms rg sv sv1
    by (simp add: ws_start_def Let_def trace_of_def
             split: option.splits exn.splits interrupt.splits)
  show "completion_of (ws_start st env) = ws_wait (wait_result env)"
    using assms rg sv1
    by (simp add: ws_start_def Let_def completion_of_def ws_wait_def
             split: option.splits exn.splits interrupt.splits)
  show "state_of (ws_start st env)
           = fst (ws_serve (fst (register_mdns st ip env)) Map.empty (schedule env))"
    using assms rg sv1
    by (simp add: ws_start_def Let_def state_of_def
             split: option.splits exn.splits interrupt.splits)
qed

lemma registration_failed_warns:
  "LogWarning ''Server will run without mDNS advertisement'' \<in> set (registration_failed e)"
  by (simp add: registration_failed_def)

lemma ws_main_of_start:
  assumes "completion_of (ws_start (ws_init acks) env) \<noteq> Blocks"
  shows "fst (ws_main acks env)
           = trace_of (ws_start (ws_init acks) env)
             @ ws_shutdown (state_of (ws_start (ws_init acks) env)) env"
    and "snd (ws_main acks env)
           = (case completion_of (ws_start (ws_init acks) env) of
                Raises (Interrupt KeyboardInterrupt) \<Rightarrow> Some Success
              | Raises (Interrupt CancelledError) \<Rightarrow> Some Success
              | c \<Rightarrow> exit_of c)"
  using assms
  by (cases "ws_start (ws_init acks) env";
      auto simp: ws_main_def Let_def trace_of_def state_of_def completion_of_def
           split: completion.splits exn.splits interrupt.splits error.splits)+


text \<open>
  C8. If the mDNS registration fails, at whichever of its steps, the failure is logged
  with a warning and \<open>start\<close> goes on: it starts the server and serves the same sessions
  as it would have served, and an interrupt then ends the process with success.
\<close>

theorem mdns_registration_failure_not_fatal:
  assumes "registration_error env = Some e" and "serve_result env = None"
    and "get_local_ip env = Inr ip"
  shows "trace_of (ws_start st env)
           = ws_banner st ip @ registration_failed e
             @ [LogInfo ''WebSocket server starting...'',
                LogInfo ''Server is running! Waiting for connections...'',
                LogInfo (''Press Ctrl+C to stop'' @ [CHR 0x0A])]
             @ snd (ws_serve st Map.empty (schedule env))
         \<and> LogWarning ''Server will run without mDNS advertisement''
             \<in> set (trace_of (ws_start st env))
         \<and> completion_of (ws_start st env) = ws_wait (wait_result env)
         \<and> (wait_result env = Some (Interrupt CancelledError) \<longrightarrow>
              snd (ws_main acks env) = Some Success)"
proof -
  have tr: "trace_of (ws_start st env)
           = ws_banner st ip @ registration_failed e
             @ [LogInfo ''WebSocket server starting...'',
                LogInfo ''Server is running! Waiting for connections...'',
                LogInfo (''Press Ctrl+C to stop'' @ [CHR 0x0A])]
             @ snd (ws_serve st Map.empty (schedule env))"
    using ws_start_serves(1) [OF assms(2,3), of st] assms(1)
    by (simp add: register_mdns_trace)
  have w: "LogWarning ''Server will run without mDNS advertisement''
             \<in> set (trace_of (ws_start st env))"
    unfolding tr using registration_failed_warns [of e] by simp
  have c: "completion_of (ws_start s env) = ws_wait (wait_result env)" for s
    by (rule ws_start_serves(2) [OF assms(2,3)])
  have "snd (ws_main acks env) = Some Success"
    if "wait_result env = Some (Interrupt CancelledError)"
  proof -
    have r: "completion_of (ws_start (ws_init acks) env) = Returns"
      using c [of "ws_init acks"] that by (simp add: ws_wait_def)
    then have "completion_of (ws_start (ws_init acks) env) \<noteq> Blocks" by simp
    from ws_main_of_start(2) [OF this] r show ?thesis by simp
  qed
  with tr w c [of st] show ?thesis by blast
qed

theorem mdns_registration_failure_not_fatal_witness:
  "registration_error w_env_no_mdns = Some OtherError
   \<and> serve_result w_env_no_mdns = None
   \<and> get_local_ip w_env_no_mdns = Inr ''192.168.1.7''
   \<and> wait_result w_env_no_mdns = Some (Interrupt CancelledError)
   \<and> LogWarning ''Server will run without mDNS advertisement''
       \<in> set (trace_of (ws_start (ws_init True) w_env_no_mdns))
   \<and> completion_of (ws_start (ws_init True) w_env_no_mdns) = Returns
   \<and> snd (ws_main True w_env_no_mdns) = Some Success
   \<and> valid_commands (trace_of (ws_start (ws_init True) w_env_no_mdns)) = 2"
proof -
  have r: "registration_error w_env_no_mdns = Some OtherError" by code_simp
  have s: "serve_result w_env_no_mdns = None" by code_simp
  have g: "get_local_ip w_env_no_mdns = Inr ''192.168.1.7''" by code_simp
  have i: "wait_result w_env_no_mdns = Some (Interrupt CancelledError)" by code_simp
  have v: "valid_commands (trace_of (ws_start (ws_init True) w_env_no_mdns)) = 2" by code_simp
  have w: "ws_wait (Some (Interrupt CancelledError)) = Returns" by (simp add: ws_wait_def)
  note t = mdns_registration_failure_not_fatal [OF r s g, of "ws_init True" True]
  from t have a: "LogWarning ''Server will run without mDNS advertisement''
       \<in> set (trace_of (ws_start (ws_init True) w_env_no_mdns))"
    by blast
  from t have "completion_of (ws_start (ws_init True) w_env_no_mdns)
                 = ws_wait (wait_result w_env_no_mdns)"
    by blast
  with i w have b: "completion_of (ws_start (ws_init True) w_env_no_mdns) = Returns"
    by simp
  from t i have c: "snd (ws_main True w_env_no_mdns) = Some Success"
    by blast
  from r s g i a b c v show ?thesis by blast
qed




section \<open>The address probe\<close>

lemma ws_start_banner:
  assumes "get_local_ip env = Inr ip"
  shows "\<exists>tr. trace_of (ws_start st env) = ws_banner st ip @ tr"
  using assms
  by (auto simp: ws_start_def Let_def trace_of_def
           split: prod.splits option.splits exn.splits interrupt.splits)

lemma ws_start_service_info:
  assumes "get_local_ip env = Inr ip"
  shows "service_info (state_of (ws_start st env))
           = service_info (fst (register_mdns st ip env))"
proof (cases "serve_result env")
  case None
  from ws_start_serves(3) [OF None assms, of st]
    ws_serve_mdns_fields [of "fst (register_mdns st ip env)" Map.empty "schedule env"]
  show ?thesis by simp
next
  case (Some e)
  with assms show ?thesis
    by (simp add: ws_start_def Let_def state_of_def split: prod.splits)
qed

text \<open>
  C10. \<open>get_local_ip\<close> always returns an address: the one the probe found, or
  \<open>127.0.0.1\<close> when any call of the probe raised. \<open>start\<close> therefore always gets past
  the probe, reports that address, and a service record that is built carries it.
\<close>

theorem get_local_ip_never_fails:
  "get_local_ip env = Inr (case probe env of Inr ip \<Rightarrow> ip | Inl e \<Rightarrow> ''127.0.0.1'')
   \<and> (\<exists>tr. trace_of (ws_start st env)
             = ws_banner st (case probe env of Inr ip \<Rightarrow> ip | Inl e \<Rightarrow> ''127.0.0.1'') @ tr)
   \<and> (zeroconf_result env = None \<and> service_info_result env = None \<longrightarrow>
        map_option svc_address (service_info (state_of (ws_start st env)))
          = Some (case probe env of Inr ip \<Rightarrow> ip | Inl e \<Rightarrow> ''127.0.0.1''))"
proof -
  define a where "a = (case probe env of Inr ip \<Rightarrow> ip | Inl e \<Rightarrow> ''127.0.0.1'')"
  have g: "get_local_ip env = Inr a"
    by (simp add: get_local_ip_def a_def split: sum.splits)
  have r: "zeroconf_result env = None \<and> service_info_result env = None \<longrightarrow>
        map_option svc_address (service_info (fst (register_mdns st a env))) = Some a"
    by (auto simp: register_mdns_def Let_def split: option.splits)
  from g ws_start_banner [OF g, of st] ws_start_service_info [OF g, of st] r
  show ?thesis unfolding a_def by simp
qed

theorem get_local_ip_never_fails_witness:
  "probe w_env_no_route = Inl OtherError
   \<and> get_local_ip w_env_no_route = Inr ''127.0.0.1''
   \<and> zeroconf_result w_env_no_route = None \<and> service_info_result w_env_no_route = None
   \<and> map_option svc_address (service_info (state_of (ws_start (ws_init False) w_env_no_route)))
       = Some ''127.0.0.1''
   \<and> probe w_env = Inr ''192.168.1.7''
   \<and> get_local_ip w_env = Inr ''192.168.1.7''"
proof -
  have p: "probe w_env_no_route = Inl OtherError" by code_simp
  have q: "probe w_env = Inr ''192.168.1.7''" by code_simp
  have z: "zeroconf_result w_env_no_route = None" "service_info_result w_env_no_route = None"
    by code_simp+
  from get_local_ip_never_fails [of w_env_no_route "ws_init False"]
       get_local_ip_never_fails [of w_env "ws_init False"] p q z
  show ?thesis by simp
qed

end
